theory Spec2Isabelle
  imports Main
begin

section \<open>Main process: the audio tap slot (src/main/main.ts)\<close>

text \<open>
  The main process keeps one module-level variable \<^verbatim>\<open>audioTapInstance\<close> (the slot) and two
  request handlers, \<^verbatim>\<open>ipc-start-audio-tap\<close> and \<^verbatim>\<open>ipc-stop-audio-tap\<close>. The native adapters
  (\<^verbatim>\<open>startAudioTapMac\<close>, \<^verbatim>\<open>startAudioTapWin\<close>) and the \<^verbatim>\<open>cleanup\<close> method of the handle they
  return are external: what they answer is an input of the model, and every call the
  handlers make to them is written to a trace, in the order of the calls.
\<close>

datatype js_error = Error string

text \<open>
  Modelled from the spec: the \<^verbatim>\<open>Status\<close> enum is declared in \<^verbatim>\<open>renderer/lib/useAudioTap\<close>,
  which is not among the sources; the spec lists the running states idle, starting,
  recording, stopping and error. The handlers only use \<^verbatim>\<open>IDLE\<close> and \<^verbatim>\<open>RECORDING\<close>.
\<close>

datatype Status = IDLE | STARTING | RECORDING | STOPPING | ERROR

type_synonym handle = nat

datatype event =
    ConsoleLog string
  | ConsoleError string js_error
  | CleanupCalled handle
  | CleanupResolved handle
  | CleanupRejected handle js_error
  | StartAudioTapMacCalled
  | StartAudioTapWinCalled
  | StartResolved handle
  | StartRejected js_error

record main_state =
  audioTapInstance :: "handle option"
  trace :: "event list"

definition initial_main :: main_state where
  "initial_main = \<lparr>audioTapInstance = None, trace = []\<rparr>"

definition emit :: "event list \<Rightarrow> main_state \<Rightarrow> main_state" where
  "emit es s = s\<lparr>trace := trace s @ es\<rparr>"

text \<open>
  \<^verbatim>\<open>await audioTapInstance.cleanup()\<close> inside \<^verbatim>\<open>try/catch\<close>: the call and its outcome
  (\<open>None\<close>: the promise resolved, \<open>Some e\<close>: it rejected with \<open>e\<close>) are recorded, and the
  \<^verbatim>\<open>catch\<close> branch only logs.
\<close>

definition awaitCleanup ::
  "string \<Rightarrow> string \<Rightarrow> string \<Rightarrow> handle \<Rightarrow> js_error option \<Rightarrow> main_state \<Rightarrow> main_state" where
  "awaitCleanup before after failed h outcome s =
     (case outcome of
        None \<Rightarrow> emit [CleanupResolved h, ConsoleLog after] (emit [ConsoleLog before, CleanupCalled h] s)
      | Some e \<Rightarrow> emit [CleanupRejected h e, ConsoleError failed e] (emit [ConsoleLog before, CleanupCalled h] s))"

text \<open>The \<^verbatim>\<open>try\<close> block of \<^verbatim>\<open>ipc-start-audio-tap\<close>: the dispatch on \<^verbatim>\<open>process.platform\<close>.\<close>

definition unsupportedPlatform :: "string \<Rightarrow> js_error" where
  "unsupportedPlatform plat =
     Error (''Unsupported platform: '' @ plat @ ''. ClozerAI Desktop only supports macOS and Windows.'')"

definition awaitNativeStart ::
  "(js_error + handle) \<Rightarrow> main_state \<Rightarrow> (js_error + Status) \<times> main_state" where
  "awaitNativeStart startOutcome s =
     (case startOutcome of
        Inr h \<Rightarrow> (Inr RECORDING, (emit [StartResolved h] s)\<lparr>audioTapInstance := Some h\<rparr>)
      | Inl e \<Rightarrow> (Inl e, emit [StartRejected e, ConsoleLog ''Error starting audio tap''] s))"

definition startOnPlatform ::
  "string \<Rightarrow> (js_error + handle) \<Rightarrow> main_state \<Rightarrow> (js_error + Status) \<times> main_state" where
  "startOnPlatform plat startOutcome s =
     (if plat = ''darwin'' then awaitNativeStart startOutcome (emit [StartAudioTapMacCalled] s)
      else if plat = ''win32'' then awaitNativeStart startOutcome (emit [StartAudioTapWinCalled] s)
      else (Inl (unsupportedPlatform plat), emit [ConsoleLog ''Error starting audio tap''] s))"

definition ipc_start_audio_tap ::
  "string \<Rightarrow> js_error option \<Rightarrow> (js_error + handle) \<Rightarrow> main_state \<Rightarrow> (js_error + Status) \<times> main_state" where
  "ipc_start_audio_tap plat cleanupOutcome startOutcome s =
     (let s1 = (case audioTapInstance s of
                  None \<Rightarrow> s
                | Some h \<Rightarrow>
                    (awaitCleanup ''Cleaning up existing audio tap instance before starting new one''
                       ''Existing audio tap cleanup completed'' ''Error during audio tap cleanup:''
                       h cleanupOutcome s)\<lparr>audioTapInstance := None\<rparr>)
      in startOnPlatform plat startOutcome s1)"





subsection \<open>Reading the trace\<close>

text \<open>
  A handle is live from the moment a native start resolved with it until a \<^verbatim>\<open>cleanup\<close> of
  it has been awaited to completion, whether the promise resolved or rejected.
\<close>

fun liveStep :: "handle list \<Rightarrow> event \<Rightarrow> handle list" where
  "liveStep live (StartResolved h) = live @ [h]"
| "liveStep live (CleanupResolved h) = removeAll h live"
| "liveStep live (CleanupRejected h e) = removeAll h live"
| "liveStep live (ConsoleLog m) = live"
| "liveStep live (ConsoleError m e) = live"
| "liveStep live (CleanupCalled h) = live"
| "liveStep live StartAudioTapMacCalled = live"
| "liveStep live StartAudioTapWinCalled = live"
| "liveStep live (StartRejected e) = live"

definition liveAfter :: "event list \<Rightarrow> handle list" where
  "liveAfter tr = foldl liveStep [] tr"

text \<open>At every instant of the trace, at most one handle is live.\<close>

fun oneLive :: "handle list \<Rightarrow> event list \<Rightarrow> bool" where
  "oneLive live [] = (length live \<le> 1)"
| "oneLive live (e # es) = (length live \<le> 1 \<and> oneLive (liveStep live e) es)"

fun isNativeStart :: "event \<Rightarrow> bool" where
  "isNativeStart StartAudioTapMacCalled = True"
| "isNativeStart StartAudioTapWinCalled = True"
| "isNativeStart (ConsoleLog m) = False"
| "isNativeStart (ConsoleError m e) = False"
| "isNativeStart (CleanupCalled h) = False"
| "isNativeStart (CleanupResolved h) = False"
| "isNativeStart (CleanupRejected h e) = False"
| "isNativeStart (StartResolved h) = False"
| "isNativeStart (StartRejected e) = False"

text \<open>Every call of a native start happens at an instant when no handle is live.\<close>

fun startsClean :: "handle list \<Rightarrow> event list \<Rightarrow> bool" where
  "startsClean live [] = True"
| "startsClean live (e # es) = ((if isNativeStart e then live = [] else True) \<and> startsClean (liveStep live e) es)"

fun isCleanupCall :: "event \<Rightarrow> bool" where
  "isCleanupCall (CleanupCalled h) = True"
| "isCleanupCall (ConsoleLog m) = False"
| "isCleanupCall (ConsoleError m e) = False"
| "isCleanupCall (CleanupResolved h) = False"
| "isCleanupCall (CleanupRejected h e) = False"
| "isCleanupCall StartAudioTapMacCalled = False"
| "isCleanupCall StartAudioTapWinCalled = False"
| "isCleanupCall (StartResolved h) = False"
| "isCleanupCall (StartRejected e) = False"

definition slotHandles :: "main_state \<Rightarrow> handle list" where
  "slotHandles s = (case audioTapInstance s of None \<Rightarrow> [] | Some h \<Rightarrow> [h])"

definition slotInv :: "main_state \<Rightarrow> bool" where
  "slotInv s = (liveAfter (trace s) = slotHandles s \<and> oneLive [] (trace s) \<and> startsClean [] (trace s))"

subsection \<open>The handlers between their awaits\<close>





















section \<open>Renderer: the session hook (useSessionTranscription)\<close>

subsection \<open>The combined transcript buffer\<close>

text \<open>
  Modelled from the spec: the hook \<^verbatim>\<open>useCombinedTranscript\<close> (\<^verbatim>\<open>addTranscript\<close>,
  \<^verbatim>\<open>getCombinedTranscriptString\<close>, \<^verbatim>\<open>clearCombinedTranscript\<close>) is imported by the session
  hook but is not among the sources. The spec says of it: \<^verbatim>\<open>addTranscript(text, source,
  isPartial)\<close>: "if isPartial, replace that source's open partial entry (or create one if
  absent); if not partial (final), drop that source's open partial and append an
  immutable entry"; \<^verbatim>\<open>getCombinedTranscriptString()\<close> "concatenates all finalized entries
  (and any currently-open partials) across both sources in chronological arrival order";
  \<^verbatim>\<open>clear()\<close> "discards all entries and open partials". The spec names no separator for
  the concatenation, so it is a parameter of the model.
\<close>

datatype source = Microphone | Share

record TranscriptEntry =
  entrySource :: source
  entryText :: string
  entryIsPartial :: bool

type_synonym combined_transcript = "TranscriptEntry list"

definition openPartial :: "source \<Rightarrow> TranscriptEntry \<Rightarrow> bool" where
  "openPartial src e = (entryIsPartial e \<and> entrySource e = src)"

definition addTranscript ::
  "string \<Rightarrow> source \<Rightarrow> bool \<Rightarrow> combined_transcript \<Rightarrow> combined_transcript" where
  "addTranscript txt src isPartial buf =
     (let entry = \<lparr>entrySource = src, entryText = txt, entryIsPartial = isPartial\<rparr> in
      if isPartial then
        (if list_ex (openPartial src) buf
         then map (\<lambda>e. if openPartial src e then entry else e) buf
         else buf @ [entry])
      else filter (\<lambda>e. \<not> openPartial src e) buf @ [entry])"

fun joinWith :: "string \<Rightarrow> string list \<Rightarrow> string" where
  "joinWith sep [] = []"
| "joinWith sep [x] = x"
| "joinWith sep (x # y # ys) = x @ sep @ joinWith sep (y # ys)"

definition getCombinedTranscriptString :: "string \<Rightarrow> combined_transcript \<Rightarrow> string" where
  "getCombinedTranscriptString sep buf = joinWith sep (map entryText buf)"

definition clearCombinedTranscript :: "combined_transcript \<Rightarrow> combined_transcript" where
  "clearCombinedTranscript buf = []"

text \<open>The events of the scenarios: one \<^verbatim>\<open>addTranscript\<close> call each.\<close>

datatype transcript_event = AddTranscript string source bool

fun applyTranscriptEvent :: "combined_transcript \<Rightarrow> transcript_event \<Rightarrow> combined_transcript" where
  "applyTranscriptEvent buf (AddTranscript txt src isPartial) = addTranscript txt src isPartial buf"

definition runTranscript :: "transcript_event list \<Rightarrow> combined_transcript" where
  "runTranscript evs = foldl applyTranscriptEvent [] evs"

definition partialsOf :: "source \<Rightarrow> combined_transcript \<Rightarrow> TranscriptEntry list" where
  "partialsOf src buf = filter (openPartial src) buf"

definition finalsOf :: "combined_transcript \<Rightarrow> TranscriptEntry list" where
  "finalsOf buf = filter (\<lambda>e. \<not> entryIsPartial e) buf"

text \<open>Each source has at most one open partial entry.\<close>

definition onePartialEach :: "combined_transcript \<Rightarrow> bool" where
  "onePartialEach buf = (\<forall>src. length (partialsOf src buf) \<le> 1)"

subsection \<open>Data of the hook\<close>

datatype role = User | Assistant | System | Data

datatype task = AiHelp | WhatToSay | DirectMessage

record message_data =
  task :: "task option"
  imageUrl :: "string option"

record Message =
  role :: role
  content :: string
  data :: "message_data option"

text \<open>The fields of \<^verbatim>\<open>CallSession\<close> (useCallSession.ts) that the hook reads; times in milliseconds.\<close>

record CallSession =
  sessionId :: string
  language :: string
  endsAt :: "int option"
  trial :: bool
  speechmaticsApiKey :: "string option"
  saveTranscription :: bool
  expired :: bool
  timeLeft :: "int option"
  canExtend :: bool

text \<open>JavaScript truthiness of a nullable string and of a nullable number.\<close>

definition truthyStr :: "string option \<Rightarrow> bool" where
  "truthyStr v = (case v of None \<Rightarrow> False | Some s \<Rightarrow> s \<noteq> [])"

definition truthyNum :: "int option \<Rightarrow> bool" where
  "truthyNum v = (case v of None \<Rightarrow> False | Some n \<Rightarrow> n \<noteq> 0)"

text \<open>
  Every call the hook makes to a collaborator (the chat hook, the mutations, the adapters'
  \<^verbatim>\<open>switchApiKey\<close>, the buffer) is recorded, in order.
\<close>

datatype action =
    ChatStop
  | ChatAppend Message
  | SaveAiAnswer string string role
  | SetQueryData string
  | GenerateSpeechmaticsSession
  | SwitchAudioTapApiKey "string option" string
  | SwitchMicrophoneApiKey "string option" string
  | CaptureScreenshot
  | ResizeImage string
  | ConsoleErr string js_error
  | AddToCombinedTranscript string source bool
  | ClearCombinedTranscript

record hook_state =
  messages :: "Message list"
  chatInput :: string
  hasAutoExtended :: bool
  hasChatActivitySinceLastExtension :: bool
  combinedTranscript :: combined_transcript
  audioTapStatus :: Status
  isRecordingMicrophone :: bool
  calls :: "action list"

definition call :: "action list \<Rightarrow> hook_state \<Rightarrow> hook_state" where
  "call as st = st\<lparr>calls := calls st @ as\<rparr>"

subsection \<open>Callbacks of the two adapters\<close>

definition addToCombinedTranscript :: "string \<Rightarrow> source \<Rightarrow> bool \<Rightarrow> hook_state \<Rightarrow> hook_state" where
  "addToCombinedTranscript txt src isPartial st =
     (call [AddToCombinedTranscript txt src isPartial] st)
       \<lparr>combinedTranscript := addTranscript txt src isPartial (combinedTranscript st)\<rparr>"

definition audioTapOnFinal :: "string \<Rightarrow> hook_state \<Rightarrow> hook_state" where
  "audioTapOnFinal transcript st =
     (if transcript = [] then st else addToCombinedTranscript transcript Share False st)"

definition audioTapOnPartial :: "string \<Rightarrow> hook_state \<Rightarrow> hook_state" where
  "audioTapOnPartial partialTranscript st = addToCombinedTranscript partialTranscript Share True st"

definition microphoneOnFinal :: "string \<Rightarrow> hook_state \<Rightarrow> hook_state" where
  "microphoneOnFinal transcript st =
     (if transcript = [] then st else addToCombinedTranscript transcript Microphone False st)"

definition microphoneOnPartial :: "string \<Rightarrow> hook_state \<Rightarrow> hook_state" where
  "microphoneOnPartial partialTranscript st =
     addToCombinedTranscript partialTranscript Microphone True st"

text \<open>What an adapter hands to its callbacks: a final or a partial text.\<close>

datatype adapter_event = FinalText source string | PartialText source string

fun deliver :: "hook_state \<Rightarrow> adapter_event \<Rightarrow> hook_state" where
  "deliver st (FinalText Share t) = audioTapOnFinal t st"
| "deliver st (PartialText Share t) = audioTapOnPartial t st"
| "deliver st (FinalText Microphone t) = microphoneOnFinal t st"
| "deliver st (PartialText Microphone t) = microphoneOnPartial t st"

definition deliverAll :: "adapter_event list \<Rightarrow> hook_state \<Rightarrow> hook_state" where
  "deliverAll evs st = foldl deliver st evs"

fun forwarded :: "adapter_event \<Rightarrow> transcript_event list" where
  "forwarded (FinalText src t) = (if t = [] then [] else [AddTranscript t src False])"
| "forwarded (PartialText src t) = [AddTranscript t src True]"

fun asCall :: "transcript_event \<Rightarrow> action" where
  "asCall (AddTranscript t src p) = AddToCombinedTranscript t src p"

subsection \<open>Chat: trimming the history and appending a user turn\<close>

definition sliceLast :: "nat \<Rightarrow> 'a list \<Rightarrow> 'a list" where
  "sliceLast n xs = drop (length xs - n) xs"

definition hasImage :: "Message \<Rightarrow> bool" where
  "hasImage m = (case data m of None \<Rightarrow> False | Some d \<Rightarrow> truthyStr (imageUrl d))"

definition stripImage :: "Message \<Rightarrow> Message" where
  "stripImage m = m\<lparr>data := map_option (\<lambda>d. d\<lparr>imageUrl := None\<rparr>) (data m)\<rparr>"

definition trimMessages :: "Message list \<Rightarrow> Message list" where
  "trimMessages msgs =
     (let arr = sliceLast 10 msgs in
      map (\<lambda>(idx, m).
             let isLast = (int idx = int (length arr) - 1) in
             if role m = User \<and> hasImage m \<and> \<not> isLast then stripImage m else m)
          (enumerate 0 arr))"

definition prepareMessagesForNewMessage :: "hook_state \<Rightarrow> hook_state" where
  "prepareMessagesForNewMessage st = st\<lparr>messages := trimMessages (messages st)\<rparr>"

definition appendAndSave :: "CallSession option \<Rightarrow> Message \<Rightarrow> hook_state \<Rightarrow> hook_state" where
  "appendAndSave cs m st =
     (let st1 = (call [ChatAppend m] st)\<lparr>messages := messages st @ [m]\<rparr> in
      case cs of
        None \<Rightarrow> st1
      | Some c \<Rightarrow>
          if role m = User \<and> sessionId c \<noteq> [] \<and> saveTranscription c
          then call [SaveAiAnswer (sessionId c) (content m) (role m)] st1
          else st1)"

definition directMessagePrefix :: string where
  "directMessagePrefix = ''**Direct Message from Sales Agent**: ''"

definition handleGenerateResponse ::
  "string \<Rightarrow> CallSession option \<Rightarrow> task \<Rightarrow> hook_state \<Rightarrow> hook_state" where
  "handleGenerateResponse sep cs tk st =
     (let st1 = call [ChatStop] (st\<lparr>hasChatActivitySinceLastExtension := True\<rparr>);
          st2 = prepareMessagesForNewMessage st1;
          cont = (if tk = DirectMessage then directMessagePrefix @ chatInput st2
                  else if chatInput st2 \<noteq> [] then chatInput st2
                  else getCombinedTranscriptString sep (combinedTranscript st2));
          st3 = appendAndSave cs
                  \<lparr>role = User, content = cont, data = Some \<lparr>task = Some tk, imageUrl = None\<rparr>\<rparr> st2
      in if tk = DirectMessage then st3\<lparr>chatInput := []\<rparr>
         else (call [ClearCombinedTranscript] st3)
                \<lparr>combinedTranscript := clearCombinedTranscript (combinedTranscript st3)\<rparr>)"

definition screenshotPrompt :: string where
  "screenshotPrompt =
     ''This is a screenshot of the callee's screen. Analyze the screen and provide a useful response.''"

definition handleGenerateResponseWithScreenshot ::
  "CallSession option \<Rightarrow> (js_error + string) \<Rightarrow> (js_error + string) \<Rightarrow> hook_state \<Rightarrow> hook_state" where
  "handleGenerateResponseWithScreenshot cs shot resized st =
     (let st1 = call [ChatStop, CaptureScreenshot] (st\<lparr>hasChatActivitySinceLastExtension := True\<rparr>) in
      case shot of
        Inl e \<Rightarrow> call [ConsoleErr ''Listen error:'' e] st1
      | Inr dataUrl \<Rightarrow>
          (let st2 = call [ResizeImage dataUrl] st1 in
           case resized of
             Inl e \<Rightarrow> call [ConsoleErr ''Listen error:'' e] st2
           | Inr resizedDataUrl \<Rightarrow>
               appendAndSave cs
                 \<lparr>role = User, content = screenshotPrompt,
                  data = Some \<lparr>task = None, imageUrl = Some resizedDataUrl\<rparr>\<rparr>
                 (prepareMessagesForNewMessage st2)))"

text \<open>Two shapes of turns, for the examples.\<close>

definition userTurn :: "string \<Rightarrow> string option \<Rightarrow> Message" where
  "userTurn c img = \<lparr>role = User, content = c, data = Some \<lparr>task = None, imageUrl = img\<rparr>\<rparr>"

definition assistantTurn :: "string \<Rightarrow> Message" where
  "assistantTurn c = \<lparr>role = Assistant, content = c, data = None\<rparr>"

text \<open>
  Two histories of 15 turns for the examples: one whose last turn is a user turn with an
  image, one whose last user turn has an image and is followed by the assistant's answer;
  and the hook after \<^verbatim>\<open>handleGenerateResponse\<close> on each.
\<close>

definition historyEndingInImage :: "Message list" where
  "historyEndingInImage =
     [assistantTurn ''a0'', userTurn ''u1'' (Some ''img1''), assistantTurn ''a2'',
      userTurn ''u3'' None, assistantTurn ''a4'',
      userTurn ''u5'' (Some ''img5''), assistantTurn ''a6'', userTurn ''u7'' None,
      assistantTurn ''a8'', userTurn ''u9'' (Some ''img9''), assistantTurn ''a10'',
      userTurn ''u11'' None, assistantTurn ''a12'', userTurn ''u13'' (Some ''img13''),
      userTurn ''u14'' (Some ''img14'')]"

definition historyEndingInAnswer :: "Message list" where
  "historyEndingInAnswer =
     [userTurn ''u0'' None, assistantTurn ''a1'', userTurn ''u2'' None, assistantTurn ''a3'',
      userTurn ''u4'' None, assistantTurn ''a5'', userTurn ''u6'' None, assistantTurn ''a7'',
      userTurn ''u8'' None, assistantTurn ''a9'', userTurn ''u10'' None, assistantTurn ''a11'',
      assistantTurn ''a12'', userTurn ''u13'' (Some ''img13''), assistantTurn ''a14'']"

subsection \<open>Session clock: automatic extension\<close>

definition timeLeftLocal :: "CallSession option \<Rightarrow> int \<Rightarrow> int option" where
  "timeLeftLocal cs now =
     (case cs of None \<Rightarrow> None
      | Some c \<Rightarrow> (case endsAt c of None \<Rightarrow> None | Some e \<Rightarrow> Some (e - now)))"

definition numLess :: "int option \<Rightarrow> int \<Rightarrow> bool" where
  "numLess v k = (case v of None \<Rightarrow> 0 < k | Some n \<Rightarrow> n < k)"

definition numGreater :: "int option \<Rightarrow> int \<Rightarrow> bool" where
  "numGreater v k = (case v of None \<Rightarrow> 0 > k | Some n \<Rightarrow> n > k)"

definition willAutoExtend :: "CallSession option \<Rightarrow> bool \<Rightarrow> bool \<Rightarrow> bool" where
  "willAutoExtend cs generateSpeechmaticsSessionLoading chatActivity =
     (case cs of None \<Rightarrow> False
      | Some c \<Rightarrow>
          truthyNum (timeLeft c) \<and> numLess (timeLeft c) 360000
          \<and> \<not> generateSpeechmaticsSessionLoading \<and> canExtend c \<and> \<not> trial c \<and> chatActivity)"

definition canAutoExtend :: "CallSession option \<Rightarrow> bool \<Rightarrow> bool \<Rightarrow> bool" where
  "canAutoExtend cs generateSpeechmaticsSessionLoading chatActivity =
     (case cs of None \<Rightarrow> False
      | Some c \<Rightarrow>
          truthyNum (timeLeft c) \<and> numGreater (timeLeft c) 360000
          \<and> \<not> generateSpeechmaticsSessionLoading \<and> canExtend c \<and> \<not> trial c \<and> chatActivity)"

definition switchApiKeys :: "string option \<Rightarrow> string \<Rightarrow> hook_state \<Rightarrow> hook_state" where
  "switchApiKeys key lang st =
     (let st1 = (if audioTapStatus st = RECORDING then call [SwitchAudioTapApiKey key lang] st else st);
          st2 = (if isRecordingMicrophone st then call [SwitchMicrophoneApiKey key lang] st1 else st1)
      in st2\<lparr>hasChatActivitySinceLastExtension := False\<rparr>)"

text \<open>
  \<^verbatim>\<open>handleSessionExtended\<close>; \<open>activation\<close> is what \<^verbatim>\<open>generateSpeechmaticsSession()\<close> answers
  if it is called (\<open>Inl\<close>: the promise rejects, and so does the handler's).
\<close>

definition handleSessionExtended ::
  "CallSession \<Rightarrow> (js_error + CallSession) \<Rightarrow> hook_state \<Rightarrow> hook_state" where
  "handleSessionExtended newCallSession activation st =
     (let st1 = call [SetQueryData (sessionId newCallSession)] st in
      if truthyStr (speechmaticsApiKey newCallSession)
      then switchApiKeys (speechmaticsApiKey newCallSession) (language newCallSession) st1
      else (let st2 = call [GenerateSpeechmaticsSession] st1 in
            case activation of
              Inl e \<Rightarrow> st2
            | Inr activated \<Rightarrow>
                switchApiKeys (speechmaticsApiKey activated) (language newCallSession) st2))"

text \<open>What one render sees from outside the hook's own state.\<close>

record render_input =
  callSession :: "CallSession option"
  now :: int
  generateSpeechmaticsSessionLoading :: bool
  activation :: "js_error + CallSession"

text \<open>
  The two auto-extension effects of one render. Both read the values of that render
  (\<open>st\<close>); their state updates are applied in the order of the effects.
\<close>

definition autoExtensionEffects :: "render_input \<Rightarrow> hook_state \<Rightarrow> hook_state" where
  "autoExtensionEffects r st =
     (let tl = timeLeftLocal (callSession r) (now r);
          wae = willAutoExtend (callSession r) (generateSpeechmaticsSessionLoading r)
                  (hasChatActivitySinceLastExtension st);
          st1 = (if wae \<and> truthyNum tl \<and> numLess tl 60000 \<and> \<not> hasAutoExtended st
                 then (let sa = st\<lparr>hasAutoExtended := True\<rparr> in
                       case callSession r of
                         None \<Rightarrow> sa
                       | Some c \<Rightarrow> handleSessionExtended c (activation r) sa)
                 else st)
      in if truthyNum tl \<and> numGreater tl 60000 \<and> hasAutoExtended st
         then st1\<lparr>hasAutoExtended := False\<rparr> else st1)"

text \<open>What happens to the hook, one event at a time: a render, or a chat trigger.\<close>

datatype hook_event =
    Render render_input
  | Generate "CallSession option" task
  | GenerateWithScreenshot "CallSession option" "js_error + string" "js_error + string"
  | SetChatInput string
  | Transcribed adapter_event

fun hookStep :: "string \<Rightarrow> hook_state \<Rightarrow> hook_event \<Rightarrow> hook_state" where
  "hookStep sep st (Render r) = autoExtensionEffects r st"
| "hookStep sep st (Generate cs tk) = handleGenerateResponse sep cs tk st"
| "hookStep sep st (GenerateWithScreenshot cs shot resized) =
     handleGenerateResponseWithScreenshot cs shot resized st"
| "hookStep sep st (SetChatInput v) = st\<lparr>chatInput := v\<rparr>"
| "hookStep sep st (Transcribed ev) = deliver st ev"

definition runHook :: "string \<Rightarrow> hook_event list \<Rightarrow> hook_state \<Rightarrow> hook_state" where
  "runHook sep evs st = foldl (hookStep sep) st evs"

fun isRenewal :: "action \<Rightarrow> bool" where
  "isRenewal (SetQueryData i) = True"
| "isRenewal ChatStop = False"
| "isRenewal (ChatAppend m) = False"
| "isRenewal (SaveAiAnswer i c r) = False"
| "isRenewal GenerateSpeechmaticsSession = False"
| "isRenewal (SwitchAudioTapApiKey k l) = False"
| "isRenewal (SwitchMicrophoneApiKey k l) = False"
| "isRenewal CaptureScreenshot = False"
| "isRenewal (ResizeImage u) = False"
| "isRenewal (ConsoleErr m e) = False"
| "isRenewal (AddToCombinedTranscript t s p) = False"
| "isRenewal ClearCombinedTranscript = False"

definition renewalAttempts :: "hook_state \<Rightarrow> nat" where
  "renewalAttempts st = length (filter isRenewal (calls st))"

text \<open>A render whose locally computed time left is above 60000 ms.\<close>

fun risesAbove :: "hook_event \<Rightarrow> bool" where
  "risesAbove (Render r) =
     (let tl = timeLeftLocal (callSession r) (now r) in truthyNum tl \<and> numGreater tl 60000)"
| "risesAbove (Generate cs tk) = False"
| "risesAbove (GenerateWithScreenshot cs shot resized) = False"
| "risesAbove (SetChatInput v) = False"
| "risesAbove (Transcribed ev) = False"

text \<open>
  A render that is due for renewal as far as the session and the clock go: the conditions
  of \<^verbatim>\<open>willAutoExtend\<close> other than the chat-activity flag, and a local time left that is
  non-zero and below 60000 ms.
\<close>

definition dueForRenewal :: "render_input \<Rightarrow> bool" where
  "dueForRenewal r =
     (let tl = timeLeftLocal (callSession r) (now r) in
      willAutoExtend (callSession r) (generateSpeechmaticsSessionLoading r) True
      \<and> truthyNum tl \<and> numLess tl 60000)"

text \<open>The first auto-extension effect runs its body at this event.\<close>

fun fires :: "hook_state \<Rightarrow> hook_event \<Rightarrow> bool" where
  "fires st (Render r) =
     (dueForRenewal r \<and> hasChatActivitySinceLastExtension st \<and> \<not> hasAutoExtended st)"
| "fires st (Generate cs tk) = False"
| "fires st (GenerateWithScreenshot cs shot resized) = False"
| "fires st (SetChatInput v) = False"
| "fires st (Transcribed ev) = False"

text \<open>
  For the examples: a session that may be extended, seen by a render at clock 0 with the
  given time left, and an activation call that would be rejected.
\<close>

definition sessionAt :: "string option \<Rightarrow> int \<Rightarrow> CallSession" where
  "sessionAt key t =
     \<lparr>sessionId = ''s1'', language = ''en'', endsAt = Some t, trial = False,
      speechmaticsApiKey = key, saveTranscription = False, expired = False,
      timeLeft = Some t, canExtend = True\<rparr>"

definition renderAt :: "string option \<Rightarrow> int \<Rightarrow> render_input" where
  "renderAt key t =
     \<lparr>callSession = Some (sessionAt key t), now = 0, generateSpeechmaticsSessionLoading = False,
      activation = Inl (Error ''offline'')\<rparr>"

definition initial_hook :: hook_state where
  "initial_hook =
     \<lparr>messages = [], chatInput = [], hasAutoExtended = False,
      hasChatActivitySinceLastExtension = True, combinedTranscript = [],
      audioTapStatus = IDLE, isRecordingMicrophone = False, calls = []\<rparr>"

definition afterGenerateOnImage :: hook_state where
  "afterGenerateOnImage =
     handleGenerateResponse [] None AiHelp (initial_hook\<lparr>messages := historyEndingInImage\<rparr>)"

definition afterGenerateOnAnswer :: hook_state where
  "afterGenerateOnAnswer =
     handleGenerateResponse [] None AiHelp (initial_hook\<lparr>messages := historyEndingInAnswer\<rparr>)"

text \<open>
  A render that is due, with both adapters recording, for a session that already has the
  key \<open>old\<close>, while an activation would answer a session with the key \<open>fresh\<close>.
\<close>

definition renewalWithExistingKey :: hook_state where
  "renewalWithExistingKey =
     autoExtensionEffects
       ((renderAt (Some ''old'') 59999)\<lparr>activation := Inr (sessionAt (Some ''fresh'') 3600000)\<rparr>)
       (initial_hook\<lparr>audioTapStatus := RECORDING, isRecordingMicrophone := True\<rparr>)"

subsection \<open>Lemmas on traces\<close>

lemma oneLive_append:
  "oneLive live (xs @ ys) = (oneLive live xs \<and> oneLive (foldl liveStep live xs) ys)"
proof (induction xs arbitrary: live)
  case Nil
  show ?case by (cases ys) auto
next
  case (Cons x xs)
  then show ?case by auto
qed

lemma startsClean_append:
  "startsClean live (xs @ ys) = (startsClean live xs \<and> startsClean (foldl liveStep live xs) ys)"
  by (induction xs arbitrary: live) auto

lemma oneLive_take:
  "oneLive live tr = (\<forall>n \<le> length tr. length (foldl liveStep live (take n tr)) \<le> 1)"
proof (induction tr arbitrary: live)
  case Nil
  show ?case by simp
next
  case (Cons e es)
  have "(\<forall>n \<le> Suc (length es). length (foldl liveStep live (take n (e # es))) \<le> 1)
        = (length live \<le> 1 \<and> (\<forall>m \<le> length es. length (foldl liveStep (liveStep live e) (take m es)) \<le> 1))"
  proof (intro iffI conjI allI impI)
    assume a: "\<forall>n \<le> Suc (length es). length (foldl liveStep live (take n (e # es))) \<le> 1"
    from a [rule_format, of 0] show "length live \<le> 1" by simp
    fix m assume "m \<le> length es"
    with a [rule_format, of "Suc m"]
    show "length (foldl liveStep (liveStep live e) (take m es)) \<le> 1" by simp
  next
    fix n
    assume b: "length live \<le> 1 \<and> (\<forall>m \<le> length es. length (foldl liveStep (liveStep live e) (take m es)) \<le> 1)"
      and n: "n \<le> Suc (length es)"
    show "length (foldl liveStep live (take n (e # es))) \<le> 1"
    proof (cases n)
      case 0
      with b show ?thesis by simp
    next
      case (Suc m)
      with b n show ?thesis by simp
    qed
  qed
  with Cons show ?case by simp
qed

lemma awaitCleanup_trace:
  "\<exists>es. trace (awaitCleanup b a f h c s) = trace s @ [ConsoleLog b, CleanupCalled h] @ es
        \<and> foldl liveStep lv ([ConsoleLog b, CleanupCalled h] @ es) = removeAll h lv
        \<and> (\<forall>e \<in> set es. \<not> isNativeStart e \<and> \<not> isCleanupCall e)"
  by (cases c) (auto simp: awaitCleanup_def emit_def)

lemma awaitCleanup_slot [simp]:
  "audioTapInstance (awaitCleanup b a f h c s) = audioTapInstance s"
  by (cases c) (auto simp: awaitCleanup_def emit_def)

lemma awaitCleanup_inv:
  assumes "slotInv s" and "audioTapInstance s = Some h"
  shows "slotInv ((awaitCleanup b a f h c s)\<lparr>audioTapInstance := None\<rparr>)"
  using assms
  by (cases c)
     (auto simp: slotInv_def slotHandles_def liveAfter_def awaitCleanup_def emit_def
                 oneLive_append startsClean_append)

lemma startOnPlatform_inv:
  assumes "slotInv s" and "audioTapInstance s = None"
  shows "slotInv (snd (startOnPlatform plat st s))"
  using assms
  by (cases st)
     (auto simp: slotInv_def slotHandles_def liveAfter_def startOnPlatform_def awaitNativeStart_def emit_def Let_def
                 oneLive_append startsClean_append)

lemma ipc_start_inv: "slotInv s \<Longrightarrow> slotInv (snd (ipc_start_audio_tap plat c st s))"
  unfolding ipc_start_audio_tap_def Let_def
  by (cases "audioTapInstance s") (auto intro!: startOnPlatform_inv awaitCleanup_inv)


















text \<open>
  C9. When \<^verbatim>\<open>process.platform\<close> is neither \<^verbatim>\<open>darwin\<close> nor \<^verbatim>\<open>win32\<close>, the start handler
  rejects with the unsupported-platform error, whatever the state and whatever the
  external calls would have answered; it calls no native start and receives no handle
  (the events it adds are at most the cleanup of a handle that occupied the slot, and
  logs); the slot is empty afterwards, and from a state that satisfies the slot invariant
  no handle is live.
\<close>

theorem unsupported_platform_fails:
  assumes "plat \<noteq> ''darwin''" and "plat \<noteq> ''win32''"
  shows "(let r = ipc_start_audio_tap plat c st s; s' = snd r in
           fst r = Inl (unsupportedPlatform plat)
         \<and> audioTapInstance s' = None
         \<and> (\<exists>es. trace s' = trace s @ es
               \<and> (\<forall>e \<in> set es. \<not> isNativeStart e \<and> (\<forall>h. e \<noteq> StartResolved h)))
         \<and> (slotInv s \<longrightarrow> liveAfter (trace s') = []))"
proof -
  have a: "slotInv s \<Longrightarrow> liveAfter (trace (snd (ipc_start_audio_tap plat c st s)))
             = slotHandles (snd (ipc_start_audio_tap plat c st s))"
    using ipc_start_inv [of s plat c st] by (simp add: slotInv_def)
  have b: "fst (ipc_start_audio_tap plat c st s) = Inl (unsupportedPlatform plat)
         \<and> audioTapInstance (snd (ipc_start_audio_tap plat c st s)) = None
         \<and> (\<exists>es. trace (snd (ipc_start_audio_tap plat c st s)) = trace s @ es
               \<and> (\<forall>e \<in> set es. \<not> isNativeStart e \<and> (\<forall>h. e \<noteq> StartResolved h)))"
    using assms
    by (cases "audioTapInstance s"; cases c)
       (auto simp: ipc_start_audio_tap_def startOnPlatform_def awaitNativeStart_def awaitCleanup_def emit_def Let_def)
  from a b show ?thesis by (simp add: Let_def slotHandles_def)
qed

theorem unsupported_platform_fails_witness:
  "(let r = ipc_start_audio_tap ''linux'' None (Inr 3) initial_main in
      fst r = Inl (Error ''Unsupported platform: linux. ClozerAI Desktop only supports macOS and Windows.'')
      \<and> audioTapInstance (snd r) = None \<and> trace (snd r) = [ConsoleLog ''Error starting audio tap''])"
  using unsupported_platform_fails [of "''linux''" None "Inr 3" initial_main]
  by (simp add: Let_def ipc_start_audio_tap_def startOnPlatform_def awaitNativeStart_def unsupportedPlatform_def emit_def
        initial_main_def)

subsection \<open>Lemmas on the combined transcript buffer\<close>

lemma partials_replace_same:
  assumes "openPartial src entry"
  shows "filter (openPartial src) (map (\<lambda>e. if openPartial src e then entry else e) buf)
         = map (\<lambda>e. entry) (filter (openPartial src) buf)"
  using assms by (induction buf) auto

lemma partials_replace_other:
  assumes "\<not> openPartial other entry" and "other \<noteq> src"
  shows "filter (openPartial other) (map (\<lambda>e. if openPartial src e then entry else e) buf)
         = filter (openPartial other) buf"
  using assms by (induction buf) (auto simp: openPartial_def)

lemma finals_replace:
  assumes "entryIsPartial entry"
  shows "filter (\<lambda>e. \<not> entryIsPartial e) (map (\<lambda>e. if openPartial src e then entry else e) buf)
         = filter (\<lambda>e. \<not> entryIsPartial e) buf"
  using assms by (induction buf) (auto simp: openPartial_def)

lemma list_ex_filter_Nil: "list_ex P xs = (filter P xs \<noteq> [])"
  by (induction xs) auto

lemma partialsOf_add_partial_same:
  "length (partialsOf src buf) \<le> 1 \<Longrightarrow>
   partialsOf src (addTranscript t src True buf)
     = [\<lparr>entrySource = src, entryText = t, entryIsPartial = True\<rparr>]"
proof -
  assume le: "length (partialsOf src buf) \<le> 1"
  let ?entry = "\<lparr>entrySource = src, entryText = t, entryIsPartial = True\<rparr>"
  have op: "openPartial src ?entry" by (simp add: openPartial_def)
  show ?thesis
  proof (cases "filter (openPartial src) buf")
    case Nil
    then show ?thesis
      by (simp add: addTranscript_def partialsOf_def list_ex_filter_Nil openPartial_def)
  next
    case (Cons x xs)
    with le have xs: "xs = []" by (simp add: partialsOf_def)
    from Cons have ex: "list_ex (openPartial src) buf" by (simp add: list_ex_filter_Nil)
    show ?thesis
      using partials_replace_same [OF op, of buf] Cons xs ex
      by (simp add: addTranscript_def partialsOf_def Let_def)
  qed
qed

lemma filter_other_unchanged:
  "other \<noteq> src \<Longrightarrow>
   filter (\<lambda>e. \<not> openPartial src e \<and> openPartial other e) buf = filter (openPartial other) buf"
  by (rule filter_cong) (auto simp: openPartial_def)

lemma partialsOf_add_other_partial:
  assumes ne: "other \<noteq> src"
  shows "partialsOf other (addTranscript t src True buf) = partialsOf other buf"
proof -
  let ?entry = "\<lparr>entrySource = src, entryText = t, entryIsPartial = True\<rparr>"
  have nop: "\<not> openPartial other ?entry" using ne by (simp add: openPartial_def)
  with partials_replace_other [OF nop ne, of buf] show ?thesis
    by (simp add: addTranscript_def partialsOf_def Let_def)
qed

lemma partialsOf_add_other_final:
  assumes ne: "other \<noteq> src"
  shows "partialsOf other (addTranscript t src False buf) = partialsOf other buf"
  using filter_other_unchanged [OF ne, of buf]
  by (simp add: addTranscript_def partialsOf_def openPartial_def Let_def)

lemma partialsOf_add_other:
  "other \<noteq> src \<Longrightarrow> partialsOf other (addTranscript t src p buf) = partialsOf other buf"
  by (cases p) (simp_all add: partialsOf_add_other_partial partialsOf_add_other_final)

lemma partialsOf_add_final_same: "partialsOf src (addTranscript t src False buf) = []"
  by (simp add: addTranscript_def partialsOf_def openPartial_def Let_def)

lemma finalsOf_add_partial: "finalsOf (addTranscript t src True buf) = finalsOf buf"
  using finals_replace [of "\<lparr>entrySource = src, entryText = t, entryIsPartial = True\<rparr>" src buf]
  by (simp add: addTranscript_def finalsOf_def Let_def)

lemma finals_keep:
  "filter (\<lambda>e. \<not> openPartial src e \<and> \<not> entryIsPartial e) buf = filter (\<lambda>e. \<not> entryIsPartial e) buf"
  by (rule filter_cong) (auto simp: openPartial_def)

lemma finalsOf_add_final:
  "finalsOf (addTranscript t src False buf)
     = finalsOf buf @ [\<lparr>entrySource = src, entryText = t, entryIsPartial = False\<rparr>]"
  by (simp add: addTranscript_def finalsOf_def finals_keep)

lemma onePartialEach_add:
  assumes "onePartialEach buf"
  shows "onePartialEach (addTranscript t src p buf)"
  unfolding onePartialEach_def
proof
  fix other
  show "length (partialsOf other (addTranscript t src p buf)) \<le> 1"
  proof (cases "other = src")
    case True
    with assms show ?thesis
      by (cases p) (simp_all add: onePartialEach_def partialsOf_add_partial_same partialsOf_add_final_same)
  next
    case False
    with assms show ?thesis by (simp add: partialsOf_add_other onePartialEach_def)
  qed
qed

lemma onePartialEach_foldl:
  "onePartialEach buf \<Longrightarrow> onePartialEach (foldl applyTranscriptEvent buf evs)"
proof (induction evs arbitrary: buf)
  case Nil
  then show ?case by simp
next
  case (Cons ev evs)
  then show ?case by (cases ev) (simp add: onePartialEach_add)
qed

lemma onePartialEach_run: "onePartialEach (runTranscript evs)"
  unfolding runTranscript_def
  by (rule onePartialEach_foldl) (simp add: onePartialEach_def partialsOf_def)

text \<open>
  C8. The buffer is the one the spec describes. For every sequence of \<^verbatim>\<open>addTranscript\<close>
  events, each source has at most one open partial entry in the buffer; a new partial from
  a source leaves exactly that partial open for it (replacing the previous one in place, or
  adding one when there was none) and changes no final entry; a final from a source leaves
  it no open partial and is appended after the final entries already there, which stay as
  they are; the other source's open partial is untouched. For the microphone events
  partial "hel", partial "hello", final "hello there", the combined string is
  "hello there", whatever the separator.
\<close>

theorem one_open_partial_per_source:
  "(let buf = runTranscript evs;
        partialEntry = \<lparr>entrySource = src, entryText = t, entryIsPartial = True\<rparr>;
        finalEntry = \<lparr>entrySource = src, entryText = t, entryIsPartial = False\<rparr> in
      length (partialsOf src buf) \<le> 1
    \<and> partialsOf src (addTranscript t src True buf) = [partialEntry]
    \<and> length (addTranscript t src True buf)
        = (if partialsOf src buf = [] then length buf + 1 else length buf)
    \<and> finalsOf (addTranscript t src True buf) = finalsOf buf
    \<and> partialsOf src (addTranscript t src False buf) = []
    \<and> finalsOf (addTranscript t src False buf) = finalsOf buf @ [finalEntry]
    \<and> (\<forall>other. other \<noteq> src \<longrightarrow>
          partialsOf other (addTranscript t src isPartial buf) = partialsOf other buf))
   \<and> getCombinedTranscriptString sep
        (runTranscript [AddTranscript ''hel'' Microphone True,
                        AddTranscript ''hello'' Microphone True,
                        AddTranscript ''hello there'' Microphone False]) = ''hello there''"
proof -
  define buf where "buf = runTranscript evs"
  have one: "length (partialsOf src buf) \<le> 1"
    using onePartialEach_run [of evs] by (simp add: onePartialEach_def buf_def)
  have len: "length (addTranscript t src True buf)
        = (if partialsOf src buf = [] then length buf + 1 else length buf)"
    by (simp add: addTranscript_def partialsOf_def list_ex_filter_Nil)
  have scen: "getCombinedTranscriptString sep
        (runTranscript [AddTranscript ''hel'' Microphone True,
                        AddTranscript ''hello'' Microphone True,
                        AddTranscript ''hello there'' Microphone False]) = ''hello there''"
    by (simp add: runTranscript_def addTranscript_def getCombinedTranscriptString_def openPartial_def)
  show ?thesis
    unfolding Let_def buf_def [symmetric]
    using one len scen partialsOf_add_partial_same [OF one] finalsOf_add_partial
      partialsOf_add_final_same finalsOf_add_final partialsOf_add_other
    by simp
qed

theorem one_open_partial_per_source_witness:
  "(let buf = runTranscript [AddTranscript ''hi'' Share True, AddTranscript ''hel'' Microphone True] in
      partialsOf Microphone buf = [\<lparr>entrySource = Microphone, entryText = ''hel'', entryIsPartial = True\<rparr>]
    \<and> partialsOf Microphone (addTranscript ''hello'' Microphone True buf)
        = [\<lparr>entrySource = Microphone, entryText = ''hello'', entryIsPartial = True\<rparr>]
    \<and> length (addTranscript ''hello'' Microphone True buf) = 2
    \<and> partialsOf Share (addTranscript ''hello'' Microphone True buf) = partialsOf Share buf
    \<and> addTranscript ''hello there'' Microphone False buf
        = [\<lparr>entrySource = Share, entryText = ''hi'', entryIsPartial = True\<rparr>,
           \<lparr>entrySource = Microphone, entryText = ''hello there'', entryIsPartial = False\<rparr>])"
  using one_open_partial_per_source
          [where src = Microphone and t = "''hello''" and isPartial = True and sep = "[]"
             and evs = "[AddTranscript ''hi'' Share True, AddTranscript ''hel'' Microphone True]"]
  by (simp add: Let_def runTranscript_def addTranscript_def partialsOf_def openPartial_def)

subsection \<open>Lemmas on the adapter callbacks\<close>

lemma deliver_calls:
  "calls (deliver st ev) = calls st @ map asCall (forwarded ev)"
  by (cases ev; cases "case ev of FinalText s t \<Rightarrow> s | PartialText s t \<Rightarrow> s")
     (auto simp: audioTapOnFinal_def audioTapOnPartial_def microphoneOnFinal_def
        microphoneOnPartial_def addToCombinedTranscript_def call_def)

lemma deliver_buffer:
  "combinedTranscript (deliver st ev) = foldl applyTranscriptEvent (combinedTranscript st) (forwarded ev)"
  by (cases ev; cases "case ev of FinalText s t \<Rightarrow> s | PartialText s t \<Rightarrow> s")
     (auto simp: audioTapOnFinal_def audioTapOnPartial_def microphoneOnFinal_def
        microphoneOnPartial_def addToCombinedTranscript_def call_def)

lemma deliverAll_calls:
  "calls (foldl deliver st evs) = calls st @ map asCall (concat (map forwarded evs))"
  by (induction evs arbitrary: st) (simp_all add: deliver_calls)

lemma deliverAll_buffer:
  "combinedTranscript (foldl deliver st evs)
     = foldl applyTranscriptEvent (combinedTranscript st) (concat (map forwarded evs))"
  by (induction evs arbitrary: st) (simp_all add: deliver_buffer)

text \<open>
  C10. Between the adapters and the buffer: a final text that is empty is dropped by the
  callback of either source (the state is unchanged, \<^verbatim>\<open>addToCombinedTranscript\<close> is not
  called); a non-empty final and every partial, empty or not, are forwarded as they are.
  Over any sequence of adapter events, the calls made to the buffer are exactly the events
  without the empty finals, in order: no call carries an empty final, and there is one
  call with \<open>isPartial\<close> for each partial event.
\<close>

theorem empty_final_never_enters_buffer:
  "deliver st (FinalText src []) = st
   \<and> deliver st (PartialText src t) = addToCombinedTranscript t src True st
   \<and> (t \<noteq> [] \<longrightarrow> deliver st (FinalText src t) = addToCombinedTranscript t src False st)
   \<and> calls (deliverAll evs st) = calls st @ map asCall (concat (map forwarded evs))
   \<and> combinedTranscript (deliverAll evs st)
       = foldl applyTranscriptEvent (combinedTranscript st) (concat (map forwarded evs))
   \<and> AddTranscript [] src False \<notin> set (concat (map forwarded evs))
   \<and> length (filter (\<lambda>e. case e of AddTranscript x s p \<Rightarrow> p) (concat (map forwarded evs)))
       = length (filter (\<lambda>ev. case ev of PartialText s x \<Rightarrow> True | FinalText s x \<Rightarrow> False) evs)"
proof -
  have a: "deliver st (FinalText src []) = st"
    by (cases src) (simp_all add: audioTapOnFinal_def microphoneOnFinal_def)
  have b: "deliver st (PartialText src t) = addToCombinedTranscript t src True st"
    by (cases src) (simp_all add: audioTapOnPartial_def microphoneOnPartial_def)
  have c: "t \<noteq> [] \<longrightarrow> deliver st (FinalText src t) = addToCombinedTranscript t src False st"
    by (cases src) (simp_all add: audioTapOnFinal_def microphoneOnFinal_def)
  have d: "AddTranscript [] src False \<notin> set (concat (map forwarded evs))"
  proof (induction evs)
    case Nil
    show ?case by simp
  next
    case (Cons ev evs)
    then show ?case by (cases ev) auto
  qed
  have e: "length (filter (\<lambda>e. case e of AddTranscript x s p \<Rightarrow> p) (concat (map forwarded evs)))
       = length (filter (\<lambda>ev. case ev of PartialText s x \<Rightarrow> True | FinalText s x \<Rightarrow> False) evs)"
  proof (induction evs)
    case Nil
    show ?case by simp
  next
    case (Cons ev evs)
    then show ?case by (cases ev) auto
  qed
  from a b c d e show ?thesis
    by (simp add: deliverAll_def deliverAll_calls deliverAll_buffer)
qed

theorem empty_final_never_enters_buffer_witness:
  "(let st = deliverAll [PartialText Share [], FinalText Share [], FinalText Microphone [],
                        PartialText Microphone [], FinalText Microphone ''ok''] initial_hook in
      calls st = [AddToCombinedTranscript [] Share True, AddToCombinedTranscript [] Microphone True,
                  AddToCombinedTranscript ''ok'' Microphone False]
    \<and> combinedTranscript st
        = [\<lparr>entrySource = Share, entryText = [], entryIsPartial = True\<rparr>,
           \<lparr>entrySource = Microphone, entryText = ''ok'', entryIsPartial = False\<rparr>])"
  using empty_final_never_enters_buffer
          [where st = initial_hook and src = Microphone and t = "''ok''"
             and evs = "[PartialText Share [], FinalText Share [], FinalText Microphone [],
                         PartialText Microphone [], FinalText Microphone ''ok'']"]
  by (simp add: Let_def initial_hook_def addTranscript_def openPartial_def)

subsection \<open>Lemmas on the chat history\<close>

lemma length_trimMessages: "length (trimMessages msgs) = min 10 (length msgs)"
  by (simp add: trimMessages_def sliceLast_def Let_def)

lemma nth_trimMessages:
  assumes "i < length (trimMessages msgs)"
  shows "trimMessages msgs ! i =
           (let arr = sliceLast 10 msgs; m = arr ! i in
            if role m = User \<and> hasImage m \<and> int i \<noteq> int (length arr) - 1 then stripImage m else m)"
  using assms by (simp add: trimMessages_def Let_def nth_enumerate_eq)

lemma stripImage_simps [simp]:
  "role (stripImage m) = role m" "content (stripImage m) = content m" "\<not> hasImage (stripImage m)"
  by (cases "data m"; simp add: stripImage_def hasImage_def truthyStr_def)+

lemma appendAndSave_messages [simp]: "messages (appendAndSave cs m st) = messages st @ [m]"
  by (cases cs) (simp_all add: appendAndSave_def call_def Let_def)

lemma appendAndSave_other [simp]:
  "combinedTranscript (appendAndSave cs m st) = combinedTranscript st"
  "chatInput (appendAndSave cs m st) = chatInput st"
  "hasAutoExtended (appendAndSave cs m st) = hasAutoExtended st"
  "hasChatActivitySinceLastExtension (appendAndSave cs m st) = hasChatActivitySinceLastExtension st"
  by (cases cs; simp add: appendAndSave_def call_def Let_def)+

lemma appendAndSave_calls:
  "\<exists>as. calls (appendAndSave cs m st) = calls st @ ChatAppend m # as
        \<and> (\<forall>a \<in> set as. \<exists>i c r. a = SaveAiAnswer i c r)"
  by (cases cs) (simp_all add: appendAndSave_def call_def Let_def)

lemma handleGenerateResponse_messages:
  "messages (handleGenerateResponse sep cs tk st)
     = trimMessages (messages st)
       @ [\<lparr>role = User,
           content = (if tk = DirectMessage then directMessagePrefix @ chatInput st
                      else if chatInput st \<noteq> [] then chatInput st
                      else getCombinedTranscriptString sep (combinedTranscript st)),
           data = Some \<lparr>task = Some tk, imageUrl = None\<rparr>\<rparr>]"
  by (simp add: handleGenerateResponse_def prepareMessagesForNewMessage_def call_def Let_def)

text \<open>
  C5 (as amended). With 15 turns accumulated, \<^verbatim>\<open>handleGenerateResponse\<close> first trims the
  history to exactly its last 10 turns: turn \<open>i\<close> of the trimmed history is turn \<open>i + 5\<close> of
  the old one, with its image removed if it is a user turn with an image and not the last
  of the ten, and unchanged otherwise. So among the ten a user turn keeps an image only
  if it is the last of them, and every user turn followed by another of the ten has none;
  role and content never change. The new user turn, which has no image, is then appended:
  the history after the call holds 11 turns, the ten trimmed ones and the new one.
\<close>

theorem history_trimmed_to_last_ten:
  assumes len: "length (messages st) = 15"
  shows "(let kept = trimMessages (messages st); st' = handleGenerateResponse sep cs tk st in
      length kept = 10
    \<and> (\<forall>i<10. kept ! i
               = (if role (messages st ! (i + 5)) = User \<and> hasImage (messages st ! (i + 5)) \<and> i \<noteq> 9
                  then stripImage (messages st ! (i + 5)) else messages st ! (i + 5)))
    \<and> (\<forall>i<10. role (kept ! i) = role (messages st ! (i + 5))
               \<and> content (kept ! i) = content (messages st ! (i + 5)))
    \<and> kept ! 9 = messages st ! 14
    \<and> (\<forall>i<10. role (kept ! i) = User \<and> hasImage (kept ! i) \<longrightarrow> i = 9)
    \<and> (\<forall>i<9. role (messages st ! (i + 5)) = User \<longrightarrow> \<not> hasImage (kept ! i))
    \<and> (\<forall>i<10. \<forall>j<10. i < j \<and> role (kept ! i) = User \<and> role (kept ! j) = User
               \<longrightarrow> \<not> hasImage (kept ! i))
    \<and> (\<exists>turn. messages st' = kept @ [turn] \<and> role turn = User \<and> \<not> hasImage turn)
    \<and> take 10 (messages st') = kept \<and> length (messages st') = 11)"
proof -
  define kept where "kept = trimMessages (messages st)"
  have l: "length kept = 10" using len by (simp add: kept_def length_trimMessages)
  have nth: "kept ! i = (if role (messages st ! (i + 5)) = User \<and> hasImage (messages st ! (i + 5)) \<and> i \<noteq> 9
                  then stripImage (messages st ! (i + 5)) else messages st ! (i + 5))" if "i < 10" for i
  proof -
    have "i < length (trimMessages (messages st))" using that l by (simp add: kept_def)
    from nth_trimMessages [OF this] that len show ?thesis
      by (simp add: kept_def sliceLast_def Let_def add.commute)
  qed
  have p2: "\<forall>i<10. kept ! i
               = (if role (messages st ! (i + 5)) = User \<and> hasImage (messages st ! (i + 5)) \<and> i \<noteq> 9
                  then stripImage (messages st ! (i + 5)) else messages st ! (i + 5))"
    using nth by blast
  have p3: "\<forall>i<10. role (kept ! i) = role (messages st ! (i + 5))
               \<and> content (kept ! i) = content (messages st ! (i + 5))"
    using nth by auto
  have p4: "kept ! 9 = messages st ! 14" using nth [of 9] by simp
  have p5: "\<forall>i<10. role (kept ! i) = User \<and> hasImage (kept ! i) \<longrightarrow> i = 9"
  proof (intro allI impI)
    fix i assume i: "i < 10" and u: "role (kept ! i) = User \<and> hasImage (kept ! i)"
    show "i = 9"
    proof (rule ccontr)
      assume n: "i \<noteq> 9"
      show False
      proof (cases "role (messages st ! (i + 5)) = User \<and> hasImage (messages st ! (i + 5))")
        case True
        with nth [OF i] n have "kept ! i = stripImage (messages st ! (i + 5))" by simp
        with u show False by simp
      next
        case False
        with nth [OF i] have "kept ! i = messages st ! (i + 5)" by auto
        with u False show False by simp
      qed
    qed
  qed
  have p5': "\<forall>i<9. role (messages st ! (i + 5)) = User \<longrightarrow> \<not> hasImage (kept ! i)"
  proof (intro allI impI)
    fix i :: nat assume i: "i < 9" and u: "role (messages st ! (i + 5)) = User"
    from i have i10: "i < 10" by simp
    from p3 i10 u have ru: "role (kept ! i) = User" by simp
    from p5 i10 have "role (kept ! i) = User \<and> hasImage (kept ! i) \<longrightarrow> i = 9" by blast
    with ru i show "\<not> hasImage (kept ! i)" by auto
  qed
  have p6: "\<forall>i<10. \<forall>j<10. i < j \<and> role (kept ! i) = User \<and> role (kept ! j) = User
               \<longrightarrow> \<not> hasImage (kept ! i)"
    using p5 by fastforce
  have p7: "(\<exists>turn. messages (handleGenerateResponse sep cs tk st) = kept @ [turn]
               \<and> role turn = User \<and> \<not> hasImage turn)
           \<and> take 10 (messages (handleGenerateResponse sep cs tk st)) = kept
           \<and> length (messages (handleGenerateResponse sep cs tk st)) = 11"
    using l by (simp add: handleGenerateResponse_messages kept_def [symmetric] hasImage_def truthyStr_def)
  from l p2 p3 p4 p5 p5' p6 p7 show ?thesis
    unfolding Let_def kept_def [symmetric] by blast
qed

theorem history_trimmed_to_last_ten_witness:
  "length historyEndingInImage = 15
   \<and> trimMessages historyEndingInImage
       = [userTurn ''u5'' None, assistantTurn ''a6'', userTurn ''u7'' None,
          assistantTurn ''a8'', userTurn ''u9'' None, assistantTurn ''a10'',
          userTurn ''u11'' None, assistantTurn ''a12'', userTurn ''u13'' None,
          userTurn ''u14'' (Some ''img14'')]
   \<and> length (messages afterGenerateOnImage) = 11"
  using history_trimmed_to_last_ten
          [where st = "initial_hook\<lparr>messages := historyEndingInImage\<rparr>"
             and sep = "[]" and cs = None and tk = AiHelp]
  by (simp add: afterGenerateOnImage_def historyEndingInImage_def trimMessages_def sliceLast_def
        Let_def enumerate_eq_zip userTurn_def assistantTurn_def hasImage_def stripImage_def
        truthyStr_def)

text \<open>
  The claim as first stated fails on the history after the call. It has 11 turns, not 10;
  and when the last of the 15 turns was a user turn with an image, that turn keeps its image
  although the appended user turn is more recent. Nor does the most recent user turn of
  the old history always keep its image: when the assistant's answer follows it, it is not
  the last of the ten and its image is removed.
\<close>

theorem history_after_generate_counterexample:
  "length historyEndingInImage = 15
   \<and> length (messages afterGenerateOnImage) = 11
   \<and> role (messages afterGenerateOnImage ! 9) = User
   \<and> hasImage (messages afterGenerateOnImage ! 9)
   \<and> role (messages afterGenerateOnImage ! 10) = User
   \<and> length historyEndingInAnswer = 15
   \<and> role (historyEndingInAnswer ! 13) = User \<and> hasImage (historyEndingInAnswer ! 13)
   \<and> role (historyEndingInAnswer ! 14) = Assistant
   \<and> messages afterGenerateOnAnswer ! 8 = userTurn ''u13'' None
   \<and> \<not> hasImage (messages afterGenerateOnAnswer ! 8)"
  by (simp add: afterGenerateOnImage_def afterGenerateOnAnswer_def handleGenerateResponse_messages
        initial_hook_def historyEndingInImage_def historyEndingInAnswer_def trimMessages_def
        sliceLast_def Let_def enumerate_eq_zip userTurn_def assistantTurn_def hasImage_def
        stripImage_def truthyStr_def)

subsection \<open>Lemmas on the chat triggers\<close>

lemma handleGenerateResponse_calls:
  "\<exists>m as. calls (handleGenerateResponse sep cs tk st)
             = calls st @ [ChatStop, ChatAppend m] @ as
               @ (if tk = DirectMessage then [] else [ClearCombinedTranscript])
         \<and> (\<forall>a \<in> set as. \<exists>i c r. a = SaveAiAnswer i c r)"
proof -
  define st2 where "st2 = prepareMessagesForNewMessage
                            (call [ChatStop] (st\<lparr>hasChatActivitySinceLastExtension := True\<rparr>))"
  define m where "m = \<lparr>role = User,
       content = (if tk = DirectMessage then directMessagePrefix @ chatInput st2
                  else if chatInput st2 \<noteq> [] then chatInput st2
                  else getCombinedTranscriptString sep (combinedTranscript st2)),
       data = Some \<lparr>task = Some tk, imageUrl = None\<rparr>\<rparr>"
  have c2: "calls st2 = calls st @ [ChatStop]"
    by (simp add: st2_def prepareMessagesForNewMessage_def call_def)
  obtain as where as: "calls (appendAndSave cs m st2) = calls st2 @ ChatAppend m # as"
     "\<forall>a \<in> set as. \<exists>i c r. a = SaveAiAnswer i c r"
    using appendAndSave_calls [of cs m st2] by blast
  have "calls (handleGenerateResponse sep cs tk st)
             = calls st @ [ChatStop, ChatAppend m] @ as
               @ (if tk = DirectMessage then [] else [ClearCombinedTranscript])"
    unfolding handleGenerateResponse_def Let_def st2_def [symmetric] m_def [symmetric]
    by (simp add: as(1) c2 call_def)
  with as(2) show ?thesis by blast
qed

text \<open>
  C6 (as amended). The user turn that \<^verbatim>\<open>handleGenerateResponse\<close> appends after the trimmed
  history has role user and carries the trigger as its task tag. For a direct message its
  content is the fixed prefix \<^verbatim>\<open>**Direct Message from Sales Agent**: \<close> followed by the
  explicit text (the chat input), not the explicit text alone; for the other triggers it
  is the explicit text if that is not empty, and the combined transcript string otherwise.
  The combined transcript buffer is cleared if and only if the trigger is not a direct
  message (a direct message clears the chat input instead).
\<close>

theorem generate_user_turn_content:
  "(let st' = handleGenerateResponse sep cs tk st; turn = last (messages st') in
      messages st' = trimMessages (messages st) @ [turn]
    \<and> role turn = User
    \<and> data turn = Some \<lparr>task = Some tk, imageUrl = None\<rparr>
    \<and> (tk = DirectMessage \<longrightarrow> content turn = directMessagePrefix @ chatInput st)
    \<and> (tk \<noteq> DirectMessage \<and> chatInput st \<noteq> [] \<longrightarrow> content turn = chatInput st)
    \<and> (tk \<noteq> DirectMessage \<and> chatInput st = [] \<longrightarrow>
          content turn = getCombinedTranscriptString sep (combinedTranscript st))
    \<and> (tk = DirectMessage \<longrightarrow> combinedTranscript st' = combinedTranscript st \<and> chatInput st' = [])
    \<and> (tk \<noteq> DirectMessage \<longrightarrow> combinedTranscript st' = [] \<and> chatInput st' = chatInput st)
    \<and> (ClearCombinedTranscript \<in> set (drop (length (calls st)) (calls st'))) = (tk \<noteq> DirectMessage))"
proof -
  obtain m as where c: "calls (handleGenerateResponse sep cs tk st)
             = calls st @ [ChatStop, ChatAppend m] @ as
               @ (if tk = DirectMessage then [] else [ClearCombinedTranscript])"
    and as: "\<forall>a \<in> set as. \<exists>i c r. a = SaveAiAnswer i c r"
    using handleGenerateResponse_calls [of sep cs tk st] by blast
  have clr: "(ClearCombinedTranscript \<in> set (drop (length (calls st))
               (calls (handleGenerateResponse sep cs tk st)))) = (tk \<noteq> DirectMessage)"
    using as by (auto simp: c)
  have rest: "(tk = DirectMessage \<longrightarrow>
                 combinedTranscript (handleGenerateResponse sep cs tk st) = combinedTranscript st
                 \<and> chatInput (handleGenerateResponse sep cs tk st) = [])
            \<and> (tk \<noteq> DirectMessage \<longrightarrow>
                 combinedTranscript (handleGenerateResponse sep cs tk st) = []
                 \<and> chatInput (handleGenerateResponse sep cs tk st) = chatInput st)"
    by (simp add: handleGenerateResponse_def prepareMessagesForNewMessage_def call_def Let_def
          clearCombinedTranscript_def)
  from clr rest show ?thesis
    by (simp add: Let_def handleGenerateResponse_messages)
qed

theorem generate_user_turn_content_witness:
  "(let st = initial_hook\<lparr>chatInput := ''hi'',
               combinedTranscript := addTranscript ''hello there'' Microphone False []\<rparr>;
        st1 = handleGenerateResponse [] None DirectMessage st;
        st2 = handleGenerateResponse [] None WhatToSay st;
        st3 = handleGenerateResponse [] None AiHelp (st\<lparr>chatInput := []\<rparr>) in
      content (last (messages st1)) = ''**Direct Message from Sales Agent**: hi''
    \<and> combinedTranscript st1 = combinedTranscript st
    \<and> content (last (messages st2)) = ''hi'' \<and> combinedTranscript st2 = []
    \<and> content (last (messages st3)) = ''hello there'' \<and> combinedTranscript st3 = [])"
  using generate_user_turn_content
          [where st = "initial_hook\<lparr>chatInput := ''hi'',
               combinedTranscript := addTranscript ''hello there'' Microphone False []\<rparr>"
             and sep = "[]" and cs = None and tk = DirectMessage]
  by (simp add: Let_def handleGenerateResponse_messages initial_hook_def directMessagePrefix_def
        getCombinedTranscriptString_def addTranscript_def handleGenerateResponse_def
        prepareMessagesForNewMessage_def call_def clearCombinedTranscript_def)

text \<open>
  The claim as first stated, that a direct message's content equals the explicit text,
  fails: for the explicit text "hi" the content has the prefix before it.
\<close>

theorem direct_message_content_counterexample:
  "content (last (messages (handleGenerateResponse [] None DirectMessage
                             (initial_hook\<lparr>chatInput := ''hi''\<rparr>))))
     = ''**Direct Message from Sales Agent**: hi''
   \<and> content (last (messages (handleGenerateResponse [] None DirectMessage
                             (initial_hook\<lparr>chatInput := ''hi''\<rparr>))))
     \<noteq> chatInput (initial_hook\<lparr>chatInput := ''hi''\<rparr>)"
  by (simp add: handleGenerateResponse_messages initial_hook_def directMessagePrefix_def)

text \<open>
  C7. If \<^verbatim>\<open>captureScreenshot\<close> rejects, \<^verbatim>\<open>handleGenerateResponseWithScreenshot\<close> leaves the
  messages as they were and neither appends nor saves a turn (the same holds when the
  resize step rejects); when both steps succeed the prompt with the resized image is
  appended after the trimmed history. In every case the combined transcript buffer is
  unchanged and \<^verbatim>\<open>clearCombinedTranscript\<close> is not called.
\<close>

theorem screenshot_failure_keeps_history:
  "(let st' = handleGenerateResponseWithScreenshot cs shot resized st;
        new = drop (length (calls st)) (calls st') in
      ((\<exists>e. shot = Inl e) \<longrightarrow> messages st' = messages st \<and> (\<forall>m. ChatAppend m \<notin> set new)
           \<and> (\<forall>i c r. SaveAiAnswer i c r \<notin> set new))
    \<and> ((\<exists>u e. shot = Inr u \<and> resized = Inl e) \<longrightarrow>
          messages st' = messages st \<and> (\<forall>m. ChatAppend m \<notin> set new))
    \<and> ((\<exists>u v. shot = Inr u \<and> resized = Inr v) \<longrightarrow>
          messages st' = trimMessages (messages st)
             @ [\<lparr>role = User, content = screenshotPrompt,
                 data = Some \<lparr>task = None, imageUrl = Some (projr resized)\<rparr>\<rparr>])
    \<and> combinedTranscript st' = combinedTranscript st
    \<and> ClearCombinedTranscript \<notin> set new
    \<and> chatInput st' = chatInput st)"
proof (cases shot)
  case (Inl e)
  then show ?thesis
    by (simp add: handleGenerateResponseWithScreenshot_def call_def Let_def)
next
  case (Inr u)
  show ?thesis
  proof (cases resized)
    case (Inl e)
    with Inr show ?thesis
      by (simp add: handleGenerateResponseWithScreenshot_def call_def Let_def)
  next
    case (Inr v)
    define st2 where "st2 = prepareMessagesForNewMessage (call [ResizeImage u]
        (call [ChatStop, CaptureScreenshot] (st\<lparr>hasChatActivitySinceLastExtension := True\<rparr>)))"
    define m where "m = \<lparr>role = User, content = screenshotPrompt,
                 data = Some \<lparr>task = None, imageUrl = Some v\<rparr>\<rparr>"
    have eq: "handleGenerateResponseWithScreenshot cs (Inr u) (Inr v) st = appendAndSave cs m st2"
      by (simp add: handleGenerateResponseWithScreenshot_def Let_def st2_def m_def)
    have c2: "calls st2 = calls st @ [ChatStop, CaptureScreenshot, ResizeImage u]"
      and m2: "messages st2 = trimMessages (messages st)"
      and b2: "combinedTranscript st2 = combinedTranscript st"
      and i2: "chatInput st2 = chatInput st"
      by (simp_all add: st2_def prepareMessagesForNewMessage_def call_def)
    obtain as where as: "calls (appendAndSave cs m st2) = calls st2 @ ChatAppend m # as"
       "\<forall>a \<in> set as. \<exists>i c r. a = SaveAiAnswer i c r"
      using appendAndSave_calls [of cs m st2] by blast
    have "ClearCombinedTranscript \<notin> set (drop (length (calls st)) (calls (appendAndSave cs m st2)))"
      using as by (auto simp: c2)
    moreover have "messages (appendAndSave cs m st2) = trimMessages (messages st) @ [m]"
      by (simp add: m2)
    moreover have "combinedTranscript (appendAndSave cs m st2) = combinedTranscript st"
      by (simp add: b2)
    moreover have "chatInput (appendAndSave cs m st2) = chatInput st"
      by (simp add: i2)
    ultimately show ?thesis
      unfolding \<open>shot = Inr u\<close> Inr Let_def eq
      by (simp add: m_def)
  qed
qed

theorem screenshot_failure_keeps_history_witness:
  "(let st = initial_hook\<lparr>messages := [userTurn ''q'' (Some ''img''), assistantTurn ''a''],
               combinedTranscript := addTranscript ''hello there'' Microphone False []\<rparr>;
        st' = handleGenerateResponseWithScreenshot None (Inl (Error ''capture failed'')) (Inr ''x'') st in
      messages st' = messages st \<and> combinedTranscript st' = combinedTranscript st
    \<and> calls st' = [ChatStop, CaptureScreenshot, ConsoleErr ''Listen error:'' (Error ''capture failed'')])"
  using screenshot_failure_keeps_history
          [where st = "initial_hook\<lparr>messages := [userTurn ''q'' (Some ''img''), assistantTurn ''a''],
               combinedTranscript := addTranscript ''hello there'' Microphone False []\<rparr>"
             and cs = None and shot = "Inl (Error ''capture failed'')" and resized = "Inr ''x''"]
  by (simp add: Let_def handleGenerateResponseWithScreenshot_def call_def initial_hook_def)

subsection \<open>Lemmas on the automatic extension\<close>

lemma renewalAttempts_updates [simp]:
  "renewalAttempts (call as st) = renewalAttempts st + length (filter isRenewal as)"
  "renewalAttempts (st\<lparr>hasAutoExtended := b\<rparr>) = renewalAttempts st"
  "renewalAttempts (st\<lparr>hasChatActivitySinceLastExtension := b\<rparr>) = renewalAttempts st"
  "renewalAttempts (st\<lparr>messages := ms\<rparr>) = renewalAttempts st"
  "renewalAttempts (st\<lparr>chatInput := ci\<rparr>) = renewalAttempts st"
  "renewalAttempts (st\<lparr>combinedTranscript := ct\<rparr>) = renewalAttempts st"
  by (simp_all add: renewalAttempts_def call_def)

lemma call_fields [simp]:
  "hasAutoExtended (call as st) = hasAutoExtended st"
  "hasChatActivitySinceLastExtension (call as st) = hasChatActivitySinceLastExtension st"
  "messages (call as st) = messages st"
  "chatInput (call as st) = chatInput st"
  "combinedTranscript (call as st) = combinedTranscript st"
  "audioTapStatus (call as st) = audioTapStatus st"
  "isRecordingMicrophone (call as st) = isRecordingMicrophone st"
  "calls (call as st) = calls st @ as"
  by (simp_all add: call_def)

lemma switchApiKeys_calls:
  "calls (switchApiKeys key lang st)
     = calls st @ (if audioTapStatus st = RECORDING then [SwitchAudioTapApiKey key lang] else [])
         @ (if isRecordingMicrophone st then [SwitchMicrophoneApiKey key lang] else [])"
  by (simp add: switchApiKeys_def call_def Let_def)

lemma switchApiKeys_fields [simp]:
  "hasAutoExtended (switchApiKeys key lang st) = hasAutoExtended st"
  "\<not> hasChatActivitySinceLastExtension (switchApiKeys key lang st)"
  "renewalAttempts (switchApiKeys key lang st) = renewalAttempts st"
  by (simp_all add: switchApiKeys_def Let_def)

lemma handleSessionExtended_armed [simp]:
  "hasAutoExtended (handleSessionExtended c act st) = hasAutoExtended st"
  by (cases act) (simp_all add: handleSessionExtended_def Let_def)

lemma handleSessionExtended_attempts:
  "renewalAttempts (handleSessionExtended c act st) = renewalAttempts st + 1"
  by (cases act) (simp_all add: handleSessionExtended_def Let_def)

lemma willAutoExtend_flag:
  "willAutoExtend cs l f = (willAutoExtend cs l True \<and> f)"
  by (cases cs) (auto simp: willAutoExtend_def)

lemma numLess_not_Greater: "truthyNum v \<Longrightarrow> numLess v k \<Longrightarrow> \<not> numGreater v k"
  by (cases v) (auto simp: numLess_def numGreater_def truthyNum_def)

lemma dueForRenewal_session:
  "dueForRenewal r \<Longrightarrow> \<exists>c. callSession r = Some c"
  by (cases "callSession r") (auto simp: dueForRenewal_def willAutoExtend_def Let_def)

lemma effects_fire:
  assumes "fires st (Render r)"
  shows "\<exists>c. callSession r = Some c
           \<and> autoExtensionEffects r st
               = handleSessionExtended c (activation r) (st\<lparr>hasAutoExtended := True\<rparr>)"
proof -
  from assms obtain c where c: "callSession r = Some c"
    using dueForRenewal_session by auto
  have ng: "\<not> numGreater (timeLeftLocal (callSession r) (now r)) 60000"
    using assms numLess_not_Greater by (auto simp: dueForRenewal_def Let_def)
  have w: "willAutoExtend (callSession r) (generateSpeechmaticsSessionLoading r)
             (hasChatActivitySinceLastExtension st)"
    using assms willAutoExtend_flag [of "callSession r" _ "hasChatActivitySinceLastExtension st"]
    by (auto simp: dueForRenewal_def Let_def)
  show ?thesis
    using assms c ng w
    by (auto simp: autoExtensionEffects_def dueForRenewal_def Let_def)
qed

lemma effects_idle:
  assumes "\<not> fires st (Render r)"
  shows "autoExtensionEffects r st
           = (if risesAbove (Render r) \<and> hasAutoExtended st then st\<lparr>hasAutoExtended := False\<rparr> else st)"
proof -
  have "\<not> (willAutoExtend (callSession r) (generateSpeechmaticsSessionLoading r)
             (hasChatActivitySinceLastExtension st)
           \<and> truthyNum (timeLeftLocal (callSession r) (now r))
           \<and> numLess (timeLeftLocal (callSession r) (now r)) 60000 \<and> \<not> hasAutoExtended st)"
    using assms willAutoExtend_flag [of "callSession r" _ "hasChatActivitySinceLastExtension st"]
    by (auto simp: dueForRenewal_def Let_def)
  then show ?thesis
    by (auto simp: autoExtensionEffects_def Let_def)
qed

lemma appendAndSave_attempts [simp]:
  "renewalAttempts (appendAndSave cs m st) = renewalAttempts st"
proof -
  obtain as where as: "calls (appendAndSave cs m st) = calls st @ ChatAppend m # as"
     "\<forall>a \<in> set as. \<exists>i c r. a = SaveAiAnswer i c r"
    using appendAndSave_calls [of cs m st] by blast
  from as(2) have "filter isRenewal as = []" by (auto simp: filter_empty_conv)
  then show ?thesis by (simp add: renewalAttempts_def as(1))
qed

lemma deliver_fields [simp]:
  "hasAutoExtended (deliver st ev) = hasAutoExtended st"
  "hasChatActivitySinceLastExtension (deliver st ev) = hasChatActivitySinceLastExtension st"
  "renewalAttempts (deliver st ev) = renewalAttempts st"
  by (cases ev; cases "case ev of FinalText s t \<Rightarrow> s | PartialText s t \<Rightarrow> s";
      simp add: audioTapOnFinal_def audioTapOnPartial_def microphoneOnFinal_def
        microphoneOnPartial_def addToCombinedTranscript_def)+

lemma generate_fields [simp]:
  "hasAutoExtended (handleGenerateResponse sep cs tk st) = hasAutoExtended st"
  "hasChatActivitySinceLastExtension (handleGenerateResponse sep cs tk st)"
  by (simp_all add: handleGenerateResponse_def prepareMessagesForNewMessage_def Let_def)

lemma generate_attempts [simp]:
  "renewalAttempts (handleGenerateResponse sep cs tk st) = renewalAttempts st"
proof -
  obtain m as where c: "calls (handleGenerateResponse sep cs tk st)
             = calls st @ [ChatStop, ChatAppend m] @ as
               @ (if tk = DirectMessage then [] else [ClearCombinedTranscript])"
    and as: "\<forall>a \<in> set as. \<exists>i c r. a = SaveAiAnswer i c r"
    using handleGenerateResponse_calls [of sep cs tk st] by blast
  from as have "filter isRenewal as = []" by (auto simp: filter_empty_conv)
  then show ?thesis by (simp add: renewalAttempts_def c)
qed

lemma screenshot_fields [simp]:
  "hasAutoExtended (handleGenerateResponseWithScreenshot cs shot resized st) = hasAutoExtended st"
  "hasChatActivitySinceLastExtension (handleGenerateResponseWithScreenshot cs shot resized st)"
  "renewalAttempts (handleGenerateResponseWithScreenshot cs shot resized st) = renewalAttempts st"
  by (cases shot; cases resized;
      simp add: handleGenerateResponseWithScreenshot_def prepareMessagesForNewMessage_def Let_def)+

lemma step_fires:
  assumes "fires st ev"
  shows "renewalAttempts (hookStep sep st ev) = renewalAttempts st + 1
         \<and> hasAutoExtended (hookStep sep st ev) \<and> \<not> hasAutoExtended st \<and> \<not> risesAbove ev"
proof (cases ev)
  case (Render r)
  with assms obtain c where
    "autoExtensionEffects r st = handleSessionExtended c (activation r) (st\<lparr>hasAutoExtended := True\<rparr>)"
    using effects_fire by blast
  moreover have "\<not> risesAbove (Render r)"
    using assms Render numLess_not_Greater by (auto simp: dueForRenewal_def Let_def)
  ultimately show ?thesis
    using assms Render
    by (simp add: handleSessionExtended_attempts)
qed (use assms in simp_all)

lemma step_idle:
  assumes "\<not> fires st ev"
  shows "renewalAttempts (hookStep sep st ev) = renewalAttempts st
         \<and> (hasAutoExtended (hookStep sep st ev) = (hasAutoExtended st \<and> \<not> risesAbove ev))
         \<and> (hasChatActivitySinceLastExtension st
              \<longrightarrow> hasChatActivitySinceLastExtension (hookStep sep st ev))"
proof (cases ev)
  case (Render r)
  with assms effects_idle [of st r] show ?thesis
    by auto
qed simp_all

lemma armed_not_fires: "hasAutoExtended st \<Longrightarrow> \<not> fires st ev"
  by (cases ev) simp_all

lemma armed_stays:
  assumes "\<forall>ev \<in> set evs. \<not> risesAbove ev" and "hasAutoExtended st"
  shows "renewalAttempts (foldl (hookStep sep) st evs) = renewalAttempts st
         \<and> hasAutoExtended (foldl (hookStep sep) st evs)"
  using assms
proof (induction evs arbitrary: st)
  case Nil
  then show ?case by simp
next
  case (Cons ev evs)
  from Cons.prems have nf: "\<not> fires st ev" by (simp add: armed_not_fires)
  from step_idle [OF nf, of sep] Cons.prems
  have s: "renewalAttempts (hookStep sep st ev) = renewalAttempts st"
    and a: "hasAutoExtended (hookStep sep st ev)" by simp_all
  from Cons.IH [OF _ a] Cons.prems s show ?case by simp
qed

lemma at_most_once:
  assumes "\<forall>ev \<in> set evs. \<not> risesAbove ev"
  shows "renewalAttempts (foldl (hookStep sep) st evs) \<le> renewalAttempts st + 1"
  using assms
proof (induction evs arbitrary: st)
  case Nil
  then show ?case by simp
next
  case (Cons ev evs)
  show ?case
  proof (cases "fires st ev")
    case True
    from step_fires [OF True, of sep] armed_stays [of evs "hookStep sep st ev" sep] Cons.prems
    show ?thesis by simp
  next
    case False
    from step_idle [OF False, of sep] Cons.IH [of "hookStep sep st ev"] Cons.prems
    show ?thesis by simp
  qed
qed

lemma exactly_once:
  assumes "\<forall>ev \<in> set evs. \<not> risesAbove ev"
    and "\<not> hasAutoExtended st" and "hasChatActivitySinceLastExtension st"
    and "\<exists>r. Render r \<in> set evs \<and> dueForRenewal r"
  shows "renewalAttempts (foldl (hookStep sep) st evs) = renewalAttempts st + 1"
  using assms
proof (induction evs arbitrary: st)
  case Nil
  then show ?case by simp
next
  case (Cons ev evs)
  show ?case
  proof (cases "fires st ev")
    case True
    from step_fires [OF True, of sep] armed_stays [of evs "hookStep sep st ev" sep] Cons.prems(1)
    show ?thesis by simp
  next
    case False
    from Cons.prems(4) obtain r where r: "Render r \<in> set (ev # evs)" "dueForRenewal r" by blast
    have "ev \<noteq> Render r" using False r(2) Cons.prems(2,3) by auto
    with r have ex: "\<exists>r. Render r \<in> set evs \<and> dueForRenewal r" by auto
    from step_idle [OF False, of sep] Cons.prems
    have "\<not> hasAutoExtended (hookStep sep st ev)"
      and "hasChatActivitySinceLastExtension (hookStep sep st ev)"
      and "renewalAttempts (hookStep sep st ev) = renewalAttempts st" by simp_all
    with Cons.IH [of "hookStep sep st ev"] ex Cons.prems(1) show ?thesis by simp
  qed
qed

text \<open>
  C3 (as amended). A renewal is attempted exactly at the events where \<open>fires\<close> holds: a
  render that is due (the session is eligible, the local time left is non-zero and below
  60000 ms) while the chat-activity flag is set and the already-extended flag is not; the
  attempt sets the already-extended flag. While that flag is set no renewal is attempted,
  and it is unset only by a render whose time left is above 60000 ms: the reset threshold
  is the renewal threshold itself, 60000 ms, not a larger one. So over any sequence of
  renders and chat events in which the time left never rises above 60000 ms, renewal is
  attempted at most once, and exactly once when the two flags start as in a fresh hook and
  some render is due.
\<close>

theorem renewal_once_until_reset:
  "(fires st ev \<longrightarrow> renewalAttempts (hookStep sep st ev) = renewalAttempts st + 1)
   \<and> (\<not> fires st ev \<longrightarrow> renewalAttempts (hookStep sep st ev) = renewalAttempts st)
   \<and> (hasAutoExtended st \<longrightarrow> \<not> fires st ev)
   \<and> hasAutoExtended (hookStep sep st ev) = (fires st ev \<or> (hasAutoExtended st \<and> \<not> risesAbove ev))
   \<and> ((\<forall>e \<in> set evs. \<not> risesAbove e) \<longrightarrow>
         renewalAttempts (runHook sep evs st) \<le> renewalAttempts st + 1)
   \<and> ((\<forall>e \<in> set evs. \<not> risesAbove e) \<and> \<not> hasAutoExtended st
        \<and> hasChatActivitySinceLastExtension st \<and> (\<exists>r. Render r \<in> set evs \<and> dueForRenewal r) \<longrightarrow>
         renewalAttempts (runHook sep evs st) = renewalAttempts st + 1)"
proof -
  have a: "fires st ev \<longrightarrow> renewalAttempts (hookStep sep st ev) = renewalAttempts st + 1"
    using step_fires [of st ev sep] by blast
  have b: "\<not> fires st ev \<longrightarrow> renewalAttempts (hookStep sep st ev) = renewalAttempts st"
    using step_idle [of st ev sep] by blast
  have c: "hasAutoExtended st \<longrightarrow> \<not> fires st ev"
    using armed_not_fires [of st ev] by blast
  have d: "hasAutoExtended (hookStep sep st ev) = (fires st ev \<or> (hasAutoExtended st \<and> \<not> risesAbove ev))"
    using step_fires [of st ev sep] step_idle [of st ev sep] by blast
  have e: "(\<forall>e \<in> set evs. \<not> risesAbove e) \<longrightarrow>
         renewalAttempts (runHook sep evs st) \<le> renewalAttempts st + 1"
    using at_most_once [of evs sep st] by (simp add: runHook_def)
  have f: "(\<forall>e \<in> set evs. \<not> risesAbove e) \<and> \<not> hasAutoExtended st
        \<and> hasChatActivitySinceLastExtension st \<and> (\<exists>r. Render r \<in> set evs \<and> dueForRenewal r) \<longrightarrow>
         renewalAttempts (runHook sep evs st) = renewalAttempts st + 1"
    using exactly_once [of evs st sep] by (simp add: runHook_def)
  from a b c d e f show ?thesis by blast
qed

lemma ex_eval:
  "timeLeftLocal (Some (sessionAt key t)) 0 = Some t"
  "willAutoExtend (Some (sessionAt key t)) False f = (t \<noteq> 0 \<and> t < 360000 \<and> f)"
  by (auto simp: timeLeftLocal_def sessionAt_def willAutoExtend_def truthyNum_def numLess_def)

lemma ex_due: "t \<noteq> 0 \<Longrightarrow> t < 60000 \<Longrightarrow> dueForRenewal (renderAt key t)"
  by (simp add: dueForRenewal_def renderAt_def ex_eval truthyNum_def numLess_def)

lemma ex_rises: "risesAbove (Render (renderAt key t)) = (60000 < t)"
  by (auto simp: renderAt_def ex_eval truthyNum_def numGreater_def)

theorem renewal_once_until_reset_witness:
  "(let evs = [Render (renderAt (Some ''k'') 59999), Render (renderAt (Some ''k'') 60000),
               Generate None AiHelp, Render (renderAt (Some ''k'') 59000),
               Render (renderAt (Some ''k'') 60000), Render (renderAt (Some ''k'') 58000)] in
      (\<forall>e \<in> set evs. \<not> risesAbove e) \<and> dueForRenewal (renderAt (Some ''k'') 59999)
    \<and> renewalAttempts (runHook [] evs initial_hook) = 1)"
proof -
  define evs where "evs = [Render (renderAt (Some ''k'') 59999), Render (renderAt (Some ''k'') 60000),
               Generate None AiHelp, Render (renderAt (Some ''k'') 59000),
               Render (renderAt (Some ''k'') 60000), Render (renderAt (Some ''k'') 58000)]"
  have h1: "\<forall>e \<in> set evs. \<not> risesAbove e" by (simp add: evs_def ex_rises del: risesAbove.simps(1))
  have h2: "dueForRenewal (renderAt (Some ''k'') 59999)" by (simp add: ex_due)
  have h3: "\<exists>r. Render r \<in> set evs \<and> dueForRenewal r"
    using h2 by (intro exI [of _ "renderAt (Some ''k'') 59999"]) (simp add: evs_def)
  have h4: "\<not> hasAutoExtended initial_hook \<and> hasChatActivitySinceLastExtension initial_hook
            \<and> renewalAttempts initial_hook = 0"
    by (simp add: initial_hook_def renewalAttempts_def)
  from renewal_once_until_reset [where st = initial_hook and sep = "[]" and evs = evs] h1 h3 h4
  have "renewalAttempts (runHook [] evs initial_hook) = 1" by simp
  with h1 h2 show ?thesis unfolding Let_def evs_def [symmetric] by simp
qed

lemma failed_renewal_keeps_flag:
  "\<not> truthyStr (speechmaticsApiKey c) \<Longrightarrow>
   hasChatActivitySinceLastExtension (handleSessionExtended c (Inl e) st)
     = hasChatActivitySinceLastExtension st"
  by (simp add: handleSessionExtended_def Let_def)

text \<open>
  The claim as first stated fails: the flag armed at 59999 ms is disarmed by a render at
  60001 ms, one millisecond above the values at which renewal is attempted, so there is no
  larger reset threshold; and a time left that goes 59999, 60001, 59999 ms gets renewal
  attempted twice, whether the first renewal succeeded (and a chat trigger came before the
  third render) or was rejected.
\<close>

theorem renewal_hysteresis_counterexample:
  "hasAutoExtended (runHook [] [Render (renderAt (Some ''k'') 59999)] initial_hook)
   \<and> \<not> hasAutoExtended (runHook [] [Render (renderAt (Some ''k'') 59999),
                                   Render (renderAt (Some ''k'') 60001)] initial_hook)
   \<and> renewalAttempts (runHook [] [Render (renderAt (Some ''k'') 59999),
                                 Render (renderAt (Some ''k'') 60001),
                                 Generate None AiHelp,
                                 Render (renderAt (Some ''k'') 59999)] initial_hook) = 2
   \<and> renewalAttempts (runHook [] [Render (renderAt None 59999),
                                 Render (renderAt None 60001),
                                 Render (renderAt None 59999)] initial_hook) = 2"
proof -
  have i: "\<not> hasAutoExtended initial_hook" "hasChatActivitySinceLastExtension initial_hook"
    "renewalAttempts initial_hook = 0"
    by (simp_all add: initial_hook_def renewalAttempts_def)
  have two: "renewalAttempts (foldl (hookStep []) initial_hook
                 ([Render (renderAt key 59999), Render (renderAt key 60001)] @ mid
                  @ [Render (renderAt key 59999)])) = 2
             \<and> hasAutoExtended (hookStep [] initial_hook (Render (renderAt key 59999)))
             \<and> \<not> hasAutoExtended (foldl (hookStep []) initial_hook
                 [Render (renderAt key 59999), Render (renderAt key 60001)])"
    if mid: "mid = [Generate None AiHelp] \<or> (mid = [] \<and> key = None)" for key mid
  proof -
    define s1 where "s1 = hookStep [] initial_hook (Render (renderAt key 59999))"
    define s2 where "s2 = hookStep [] s1 (Render (renderAt key 60001))"
    define s3 where "s3 = foldl (hookStep []) s2 mid"
    define s4 where "s4 = hookStep [] s3 (Render (renderAt key 59999))"
    have f1: "fires initial_hook (Render (renderAt key 59999))" using i by (simp add: ex_due)
    from step_fires [OF f1, of "[]"] i
    have a1: "renewalAttempts s1 = 1" "hasAutoExtended s1" by (simp_all add: s1_def)
    have c1: "key = None \<Longrightarrow> hasChatActivitySinceLastExtension s1"
    proof -
      assume k: "key = None"
      from effects_fire [OF f1] have "autoExtensionEffects (renderAt key 59999) initial_hook
         = handleSessionExtended (sessionAt key 59999) (Inl (Error ''offline''))
             (initial_hook\<lparr>hasAutoExtended := True\<rparr>)"
        by (auto simp: renderAt_def)
      with k i(2) show ?thesis
        by (simp add: s1_def failed_renewal_keeps_flag sessionAt_def truthyStr_def)
    qed
    have nf2: "\<not> fires s1 (Render (renderAt key 60001))" using a1 by simp
    from step_idle [OF nf2, of "[]"] a1
    have a2: "renewalAttempts s2 = 1" "\<not> hasAutoExtended s2"
      "hasChatActivitySinceLastExtension s1 \<Longrightarrow> hasChatActivitySinceLastExtension s2"
      by (simp_all add: s2_def ex_rises del: risesAbove.simps(1))
    have a3: "renewalAttempts s3 = 1 \<and> \<not> hasAutoExtended s3 \<and> hasChatActivitySinceLastExtension s3"
      using mid a2 c1 by (auto simp: s3_def)
    have f4: "fires s3 (Render (renderAt key 59999))" using a3 by (simp add: ex_due)
    from step_fires [OF f4, of "[]"] a3 have "renewalAttempts s4 = 2" by (simp add: s4_def)
    with a1 a2 show ?thesis
      by (simp add: s1_def s2_def s3_def s4_def)
  qed
  from two [of "[Generate None AiHelp]" "Some ''k''"] two [of "[]" None]
  show ?thesis by (simp add: runHook_def)
qed

text \<open>
  C4 (as amended). The auto-extension effects make a call only by running
  \<^verbatim>\<open>handleSessionExtended\<close> on the current session, and only when the session is not a
  trial, \<^verbatim>\<open>canExtend\<close> holds, no \<^verbatim>\<open>generateSpeechmaticsSession\<close> call is pending and the
  chat-activity flag is set. \<^verbatim>\<open>handleSessionExtended\<close> takes the key the session already
  has, and activates the session for a key only when it has none; with that key and the
  session's language it calls \<^verbatim>\<open>switchApiKey\<close> of the audio tap if its status is
  \<^verbatim>\<open>RECORDING\<close> and of the microphone if it is recording, in that order, and then clears
  the chat-activity flag. If the activation is rejected, no adapter is switched and the
  flag keeps its value. Both chat triggers set the flag.
\<close>

theorem renewal_only_when_eligible:
  "(calls (autoExtensionEffects r st) \<noteq> calls st \<longrightarrow>
      (\<exists>c. callSession r = Some c \<and> \<not> trial c \<and> canExtend c
           \<and> \<not> generateSpeechmaticsSessionLoading r \<and> hasChatActivitySinceLastExtension st
           \<and> autoExtensionEffects r st
               = handleSessionExtended c (activation r) (st\<lparr>hasAutoExtended := True\<rparr>)))
   \<and> (let st' = handleSessionExtended c act st;
           key = (if truthyStr (speechmaticsApiKey c) then speechmaticsApiKey c
                  else (case act of Inl e \<Rightarrow> None | Inr activated \<Rightarrow> speechmaticsApiKey activated)) in
        (truthyStr (speechmaticsApiKey c) \<or> (\<exists>activated. act = Inr activated) \<longrightarrow>
           calls st' = calls st @ [SetQueryData (sessionId c)]
              @ (if truthyStr (speechmaticsApiKey c) then [] else [GenerateSpeechmaticsSession])
              @ (if audioTapStatus st = RECORDING then [SwitchAudioTapApiKey key (language c)] else [])
              @ (if isRecordingMicrophone st then [SwitchMicrophoneApiKey key (language c)] else [])
           \<and> \<not> hasChatActivitySinceLastExtension st')
      \<and> (\<not> truthyStr (speechmaticsApiKey c) \<and> (\<exists>e. act = Inl e) \<longrightarrow>
           calls st' = calls st @ [SetQueryData (sessionId c), GenerateSpeechmaticsSession]
           \<and> hasChatActivitySinceLastExtension st' = hasChatActivitySinceLastExtension st))
   \<and> hasChatActivitySinceLastExtension (handleGenerateResponse sep cs tk st)
   \<and> hasChatActivitySinceLastExtension (handleGenerateResponseWithScreenshot cs shot resized st)"
proof -
  have a: "calls (autoExtensionEffects r st) \<noteq> calls st \<longrightarrow>
      (\<exists>c. callSession r = Some c \<and> \<not> trial c \<and> canExtend c
           \<and> \<not> generateSpeechmaticsSessionLoading r \<and> hasChatActivitySinceLastExtension st
           \<and> autoExtensionEffects r st
               = handleSessionExtended c (activation r) (st\<lparr>hasAutoExtended := True\<rparr>))"
  proof
    assume ne: "calls (autoExtensionEffects r st) \<noteq> calls st"
    have f: "fires st (Render r)"
    proof (rule ccontr)
      assume "\<not> fires st (Render r)"
      from effects_idle [OF this] ne show False by (simp split: if_splits)
    qed
    from effects_fire [OF f] obtain c where c: "callSession r = Some c"
      "autoExtensionEffects r st = handleSessionExtended c (activation r) (st\<lparr>hasAutoExtended := True\<rparr>)"
      by blast
    from f c(1) have "\<not> trial c \<and> canExtend c \<and> \<not> generateSpeechmaticsSessionLoading r
        \<and> hasChatActivitySinceLastExtension st"
      by (simp add: dueForRenewal_def willAutoExtend_def Let_def)
    with c show "\<exists>c. callSession r = Some c \<and> \<not> trial c \<and> canExtend c
           \<and> \<not> generateSpeechmaticsSessionLoading r \<and> hasChatActivitySinceLastExtension st
           \<and> autoExtensionEffects r st
               = handleSessionExtended c (activation r) (st\<lparr>hasAutoExtended := True\<rparr>)"
      by blast
  qed
  have b: "(let st' = handleSessionExtended c act st;
           key = (if truthyStr (speechmaticsApiKey c) then speechmaticsApiKey c
                  else (case act of Inl e \<Rightarrow> None | Inr activated \<Rightarrow> speechmaticsApiKey activated)) in
        (truthyStr (speechmaticsApiKey c) \<or> (\<exists>activated. act = Inr activated) \<longrightarrow>
           calls st' = calls st @ [SetQueryData (sessionId c)]
              @ (if truthyStr (speechmaticsApiKey c) then [] else [GenerateSpeechmaticsSession])
              @ (if audioTapStatus st = RECORDING then [SwitchAudioTapApiKey key (language c)] else [])
              @ (if isRecordingMicrophone st then [SwitchMicrophoneApiKey key (language c)] else [])
           \<and> \<not> hasChatActivitySinceLastExtension st')
      \<and> (\<not> truthyStr (speechmaticsApiKey c) \<and> (\<exists>e. act = Inl e) \<longrightarrow>
           calls st' = calls st @ [SetQueryData (sessionId c), GenerateSpeechmaticsSession]
           \<and> hasChatActivitySinceLastExtension st' = hasChatActivitySinceLastExtension st))"
    by (cases act) (auto simp: handleSessionExtended_def Let_def switchApiKeys_calls)
  from a b show ?thesis by simp
qed

theorem renewal_only_when_eligible_witness:
  "(let st = initial_hook\<lparr>audioTapStatus := RECORDING, isRecordingMicrophone := True\<rparr>;
        st' = handleSessionExtended (sessionAt (Some ''k'') 59999) (Inl (Error ''offline'')) st in
      calls st' = [SetQueryData ''s1'', SwitchAudioTapApiKey (Some ''k'') ''en'',
                   SwitchMicrophoneApiKey (Some ''k'') ''en'']
    \<and> \<not> hasChatActivitySinceLastExtension st'
    \<and> calls (autoExtensionEffects
               ((renderAt (Some ''k'') 59999)
                  \<lparr>callSession := Some ((sessionAt (Some ''k'') 59999)\<lparr>trial := True\<rparr>)\<rparr>) st) = calls st)"
proof -
  define st where "st = initial_hook\<lparr>audioTapStatus := RECORDING, isRecordingMicrophone := True\<rparr>"
  define c where "c = (sessionAt (Some ''k'') 59999)\<lparr>trial := True\<rparr>"
  define r where "r = (renderAt (Some ''k'') 59999)\<lparr>callSession := Some c\<rparr>"
  note T = renewal_only_when_eligible
          [where st = st and r = r and c = "sessionAt (Some ''k'') 59999"
             and act = "Inl (Error ''offline'')" and sep = "[]" and cs = None and tk = AiHelp
             and shot = "Inl (Error ''x'')" and resized = "Inl (Error ''x'')"]
  have k: "truthyStr (speechmaticsApiKey (sessionAt (Some ''k'') 59999))"
    "sessionId (sessionAt (Some ''k'') 59999) = ''s1''"
    "language (sessionAt (Some ''k'') 59999) = ''en''"
    "speechmaticsApiKey (sessionAt (Some ''k'') 59999) = Some ''k''"
    by (simp_all add: sessionAt_def truthyStr_def)
  have s: "calls st = []" "audioTapStatus st = RECORDING" "isRecordingMicrophone st"
    by (simp_all add: st_def initial_hook_def)
  have cr: "callSession r = Some c" "trial c" by (simp_all add: r_def c_def)
  from T have "calls (autoExtensionEffects r st) \<noteq> calls st \<longrightarrow>
      (\<exists>c'. callSession r = Some c' \<and> \<not> trial c')" by blast
  with cr have p3: "calls (autoExtensionEffects r st) = calls st" by auto
  from T k s have p12:
    "calls (handleSessionExtended (sessionAt (Some ''k'') 59999) (Inl (Error ''offline'')) st)
       = [SetQueryData ''s1'', SwitchAudioTapApiKey (Some ''k'') ''en'',
          SwitchMicrophoneApiKey (Some ''k'') ''en'']
     \<and> \<not> hasChatActivitySinceLastExtension
           (handleSessionExtended (sessionAt (Some ''k'') 59999) (Inl (Error ''offline'')) st)"
    by (simp add: Let_def)
  from p12 p3 show ?thesis
    unfolding Let_def st_def [symmetric] c_def [symmetric] r_def [symmetric] by simp
qed

text \<open>
  The claim as first stated, that a renewal fetches or activates a fresh credential and
  hands the new credential to the adapters, fails for a session that already has a key:
  nothing is activated, and both adapters are switched to the key the session had, though
  an activation would have answered another one.
\<close>

theorem renewal_reuses_key_counterexample:
  "calls renewalWithExistingKey
     = [SetQueryData ''s1'', SwitchAudioTapApiKey (Some ''old'') ''en'',
        SwitchMicrophoneApiKey (Some ''old'') ''en'']
   \<and> GenerateSpeechmaticsSession \<notin> set (calls renewalWithExistingKey)
   \<and> speechmaticsApiKey (sessionAt (Some ''old'') 59999) = Some ''old''"
proof -
  define r where "r = (renderAt (Some ''old'') 59999)
                        \<lparr>activation := Inr (sessionAt (Some ''fresh'') 3600000)\<rparr>"
  define st where "st = initial_hook\<lparr>audioTapStatus := RECORDING, isRecordingMicrophone := True\<rparr>"
  have rf: "callSession r = Some (sessionAt (Some ''old'') 59999)" "now r = 0"
    "\<not> generateSpeechmaticsSessionLoading r"
    by (simp_all add: r_def renderAt_def)
  have due: "dueForRenewal r"
    by (simp add: dueForRenewal_def rf ex_eval truthyNum_def numLess_def)
  have s: "calls st = []" "audioTapStatus st = RECORDING" "isRecordingMicrophone st"
    "hasChatActivitySinceLastExtension st" "\<not> hasAutoExtended st"
    by (simp_all add: st_def initial_hook_def)
  have f: "fires st (Render r)" using due s by simp
  from effects_fire [OF f] rf(1)
  have e: "autoExtensionEffects r st
             = handleSessionExtended (sessionAt (Some ''old'') 59999) (activation r)
                 (st\<lparr>hasAutoExtended := True\<rparr>)"
    by simp
  have k: "truthyStr (speechmaticsApiKey (sessionAt (Some ''old'') 59999))"
    "sessionId (sessionAt (Some ''old'') 59999) = ''s1''"
    "language (sessionAt (Some ''old'') 59999) = ''en''"
    "speechmaticsApiKey (sessionAt (Some ''old'') 59999) = Some ''old''"
    by (simp_all add: sessionAt_def truthyStr_def)
  have c: "calls (autoExtensionEffects r st)
             = [SetQueryData ''s1'', SwitchAudioTapApiKey (Some ''old'') ''en'',
                SwitchMicrophoneApiKey (Some ''old'') ''en'']"
    using k s by (simp add: e handleSessionExtended_def switchApiKeys_calls Let_def)
  have "renewalWithExistingKey = autoExtensionEffects r st"
    by (simp add: renewalWithExistingKey_def r_def st_def)
  with c k(4) show ?thesis by simp
qed

end
